theory Spec2Isabelle
  imports Complex_Main "HOL-Library.Multiset"
begin

section \<open>Few-shot method evaluation: the MethodEvaluation step\<close>

text \<open>
  A shallow embedding of \<^verbatim>\<open>classification/src/steps/method_evaluation.py\<close>.
  Python exceptions are values of \<open>error\<close> on the left of a sum; a dict is an association
  list in insertion order (the order Python iterates it in); numpy's random generator is a
  stream of raw draws that every sampling function consumes and returns.
\<close>

subsection \<open>Exceptions\<close>

datatype error =
    ValueError string
  | IndexError string
  | KeyError string
  | TypeError string
  | RuntimeError string

subsection \<open>The FeaturePool builder: \<open>_process_features\<close>\<close>

text \<open>
  A feature vector is a row of the two-dimensional \<open>features\<close> array, a list of numbers;
  a label is an integer. The pool is the dict \<open>features_per_label\<close>.
\<close>

type_synonym 'a feature_pool = "(int \<times> 'a list list) list"

text \<open>\<open>v.any()\<close>: some component of the vector is not zero.\<close>

definition any_nonzero :: "'a::zero list \<Rightarrow> bool" where
  "any_nonzero v = list_ex (\<lambda>x. x \<noteq> 0) v"

text \<open>
  The trimming loop
  \<^verbatim>\<open>while not features[-1].any():
      features = np.delete(features, -1, axis=0)
      labels = np.delete(labels, -1, axis=0)\<close>
  \<open>features[-1]\<close> raises IndexError on an array with no row, and so does \<open>np.delete\<close>
  of index -1 on an array with no element.
\<close>

function trim_trailing ::
  "'a::zero list list \<Rightarrow> int list \<Rightarrow> error + ('a list list \<times> int list)" where
  "trim_trailing features labels =
     (if features = [] then Inl (IndexError ''index -1 is out of bounds for axis 0 with size 0'')
      else if any_nonzero (last features) then Inr (features, labels)
      else if labels = [] then Inl (IndexError ''index -1 is out of bounds for axis 0 with size 0'')
      else trim_trailing (butlast features) (butlast labels))"
  by pat_completeness auto
termination
  by (relation "measure (\<lambda>(features, labels). length features)") auto

declare trim_trailing.simps [simp del]

text \<open>\<open>np.unique(np.array(labels)).tolist()\<close>: the distinct labels, in ascending order.\<close>

definition np_unique :: "int list \<Rightarrow> int list" where
  "np_unique labels = sort (remdups labels)"

text \<open>\<open>d[k].append(v)\<close> on a dict in insertion order; KeyError when the key is absent.\<close>

fun dict_append :: "int \<Rightarrow> 'v \<Rightarrow> (int \<times> 'v list) list \<Rightarrow> error + (int \<times> 'v list) list" where
  "dict_append k v [] = Inl (KeyError ''label'')"
| "dict_append k v ((k', vs) # d) =
     (if k = k' then Inr ((k', vs @ [v]) # d)
      else (case dict_append k v d of
              Inl e \<Rightarrow> Inl e
            | Inr d' \<Rightarrow> Inr ((k', vs) # d')))"

text \<open>
  The grouping loop
  \<^verbatim>\<open>for ind in range(len(labels)):
      features_per_label[labels[ind]].append(features[ind])\<close>
  over the indices still to visit. The dict is read first (KeyError for a label that is not a
  key), then \<open>features[ind]\<close> (IndexError when \<open>features\<close> is shorter than \<open>labels\<close>).
\<close>

fun group_loop ::
  "'a list list \<Rightarrow> int list \<Rightarrow> nat list \<Rightarrow> 'a feature_pool \<Rightarrow> error + 'a feature_pool" where
  "group_loop features labels [] d = Inr d"
| "group_loop features labels (ind # inds) d =
     (if map_of d (labels ! ind) = None then Inl (KeyError ''label'')
      else if length features \<le> ind then Inl (IndexError ''index is out of bounds for axis 0'')
      else (case dict_append (labels ! ind) (features ! ind) d of
              Inl e \<Rightarrow> Inl e
            | Inr d' \<Rightarrow> group_loop features labels inds d'))"

definition process_features ::
  "'a::zero list list \<times> int list \<Rightarrow> error + 'a feature_pool" where
  "process_features features_and_labels =
     (case features_and_labels of (features, labels) \<Rightarrow>
        (case trim_trailing features labels of
           Inl e \<Rightarrow> Inl e
         | Inr (features', labels') \<Rightarrow>
             group_loop features' labels' [0..<length labels']
               (map (\<lambda>label. (label, [])) (np_unique labels'))))"

text \<open>The order of first occurrence of each label, which the keys are compared with.\<close>

definition first_occurrence_order :: "int list \<Rightarrow> int list" where
  "first_occurrence_order labels = rev (remdups (rev labels))"

subsection \<open>The random generator\<close>

text \<open>
  The state of numpy's global generator is the stream of raw draws still to come:
  \<open>g 0\<close> is the next one. Every function that draws returns the rest of the stream.
  \<open>random_interval mx\<close> is a draw in \<open>0..mx\<close>, both ends included.
\<close>

type_synonym rng = "nat \<Rightarrow> nat"

definition random_interval :: "nat \<Rightarrow> rng \<Rightarrow> nat \<times> rng" where
  "random_interval mx g = (g 0 mod Suc mx, \<lambda>i. g (Suc i))"

definition swap_at :: "nat \<Rightarrow> nat \<Rightarrow> 'a list \<Rightarrow> 'a list" where
  "swap_at i j xs = xs[i := xs ! j, j := xs ! i]"

text \<open>
  \<open>np.random.shuffle\<close>:
  \<^verbatim>\<open>for i in reversed(range(1, n)):
      j = random_interval(i)
      x[i], x[j] = x[j], x[i]\<close>
\<close>

fun shuffle_loop :: "nat \<Rightarrow> 'a list \<Rightarrow> rng \<Rightarrow> 'a list \<times> rng" where
  "shuffle_loop 0 xs g = (xs, g)"
| "shuffle_loop (Suc i) xs g =
     (case random_interval (Suc i) g of
        (j, g') \<Rightarrow> shuffle_loop i (swap_at (Suc i) j xs) g')"

text \<open>\<open>np.random.permutation(n)\<close>: \<open>arange(n)\<close>, shuffled.\<close>

definition permutation :: "nat \<Rightarrow> rng \<Rightarrow> nat list \<times> rng" where
  "permutation n g = shuffle_loop (n - 1) [0..<n] g"

text \<open>
  \<open>np.random.choice(a, size=size, replace=False)\<close>: the first \<open>size\<close> entries of a
  permutation of the positions of \<open>a\<close>; ValueError when \<open>a\<close> is empty and a sample is
  asked for, or when the sample is larger than the population.
\<close>

definition choice :: "'a list \<Rightarrow> nat \<Rightarrow> rng \<Rightarrow> error + ('a list \<times> rng)" where
  "choice a sz g =
     (if a = [] \<and> sz \<noteq> 0 then Inl (ValueError ''a cannot be empty unless no samples are taken'')
      else if length a < sz then
        Inl (ValueError ''Cannot take a larger sample than population when replace is False'')
      else (case permutation (length a) g of
              (idx, g') \<Rightarrow> Inr (map (\<lambda>i. a ! i) (take sz idx), g')))"

subsection \<open>The configuration of the step\<close>

text \<open>The attributes set by \<open>__init__\<close>; the counts are non-negative integers.\<close>

record config =
  dataset :: string
  backbone :: string
  method_name :: string
  train_n_way :: nat
  test_n_way :: nat
  n_shot :: nat
  n_query :: nat
  train_aug :: bool
  split :: string
  save_iter :: int
  n_iter :: nat
  adaptation :: bool
  random_seed :: "int option"
  n_swaps :: nat

subsection \<open>Episodes\<close>

text \<open>
  \<open>np.squeeze\<close> of a feature vector drops an axis of length one: a vector with one
  component becomes a zero-axis array (a scalar), any other vector is unchanged.
\<close>

datatype 'a ndarray = Scalar 'a | Vector "'a list"

definition squeeze :: "'a list \<Rightarrow> 'a ndarray" where
  "squeeze v = (case v of [x] \<Rightarrow> Scalar x | _ \<Rightarrow> Vector v)"

fun cell_shape :: "'a ndarray \<Rightarrow> nat list" where
  "cell_shape (Scalar x) = []"
| "cell_shape (Vector v) = [length v]"

text \<open>An episode is the stacked structure: one row of cells per selected class.\<close>

type_synonym 'a episode = "'a ndarray list list"

text \<open>
  \<open>np.array(z_all)\<close> of a list of equally long lists of arrays: the arrays must all have
  one shape, else the structure is not a numeric array (ValueError).
\<close>

definition homogeneous :: "'a episode \<Rightarrow> bool" where
  "homogeneous z =
     (case concat z of
        [] \<Rightarrow> True
      | c # cs \<Rightarrow> list_all (\<lambda>c'. cell_shape c' = cell_shape c) cs)"

definition np_array :: "'a episode \<Rightarrow> error + 'a episode" where
  "np_array z =
     (if homogeneous z then Inr z
      else Inl (ValueError ''setting an array element with a sequence''))"

text \<open>The \<open>shape\<close> attribute of the stacked array.\<close>

definition shape :: "'a episode \<Rightarrow> nat list" where
  "shape z =
     (case z of
        [] \<Rightarrow> [0]
      | row # _ \<Rightarrow>
          length z # (case row of [] \<Rightarrow> [0] | c # _ \<Rightarrow> length row # cell_shape c))"

subsection \<open>The label noise injector: \<open>random_swap_numpy\<close>\<close>

text \<open>
  Modelled from the spec: the exchange of the feature content of two cells, the step of
  \<open>utils.utils.random_swap_numpy\<close>, whose source is not part of the files at hand.
\<close>

definition exchange :: "nat \<Rightarrow> nat \<Rightarrow> nat \<Rightarrow> nat \<Rightarrow> 'c list list \<Rightarrow> 'c list list" where
  "exchange c1 p1 c2 p2 z =
     z[c1 := (z ! c1)[p1 := z ! c2 ! p2], c2 := (z ! c2)[p2 := z ! c1 ! p1]]"

text \<open>
  Modelled from the spec: \<open>utils.utils.random_swap_numpy\<close> is imported by the step but its
  source is not part of the files at hand. Following the specification of the Label Noise
  Injector, it performs exactly \<open>n_swaps\<close> exchanges, each drawn independently: two different
  classes, a support position (an index below \<open>n_shot\<close>) in each, and the contents of the two
  cells are exchanged. Drawing two different classes out of fewer than two, or a position
  below zero, is an error, and so is a support position beyond the end of a class slice.
\<close>

fun random_swap_numpy ::
  "'c list list \<Rightarrow> nat \<Rightarrow> nat \<Rightarrow> rng \<Rightarrow> error + ('c list list \<times> rng)" where
  "random_swap_numpy z 0 shot g = Inr (z, g)"
| "random_swap_numpy z (Suc n) shot g =
     (case choice [0..<length z] 2 g of
        Inl e \<Rightarrow> Inl e
      | Inr (swap_classes, g1) \<Rightarrow>
          if shot = 0 then Inl (ValueError ''high <= 0'')
          else (case random_interval (shot - 1) g1 of
            (p1, g2) \<Rightarrow>
              (case random_interval (shot - 1) g2 of
                (p2, g3) \<Rightarrow>
                  let c1 = swap_classes ! 0; c2 = swap_classes ! 1 in
                  if length (z ! c1) \<le> p1 \<or> length (z ! c2) \<le> p2
                  then Inl (IndexError ''index is out of bounds for axis 1'')
                  else random_swap_numpy (exchange c1 p1 c2 p2 z) n shot g3)))"

subsection \<open>The episode sampler: \<open>_set_classification_task\<close>\<close>

text \<open>\<open>d[k]\<close> on a dict; KeyError when the key is absent.\<close>

definition dict_get :: "(int \<times> 'v) list \<Rightarrow> int \<Rightarrow> error + 'v" where
  "dict_get d k = (case map_of d k of None \<Rightarrow> Inl (KeyError ''label'') | Some v \<Rightarrow> Inr v)"

text \<open>
  The loop over the selected classes
  \<^verbatim>\<open>for cl in select_class:
      img_feat = features_per_label[cl]
      perm_ids = np.random.permutation(len(img_feat)).tolist()
      z_all.append([np.squeeze(img_feat[perm_ids[i]]) for i in range(self.n_shot + self.n_query)])\<close>
  \<open>perm_ids[i]\<close> raises IndexError as soon as \<open>i\<close> reaches the length of \<open>perm_ids\<close>,
  that is when the class has fewer than \<open>n_shot + n_query\<close> vectors.
\<close>

fun class_loop ::
  "'a feature_pool \<Rightarrow> nat \<Rightarrow> int list \<Rightarrow> rng \<Rightarrow> error + ('a episode \<times> rng)" where
  "class_loop pool k [] g = Inr ([], g)"
| "class_loop pool k (cl # cls) g =
     (case dict_get pool cl of
        Inl e \<Rightarrow> Inl e
      | Inr img_feat \<Rightarrow>
          (case permutation (length img_feat) g of
             (perm_ids, g') \<Rightarrow>
               if length perm_ids < k then Inl (IndexError ''list index out of range'')
               else (case class_loop pool k cls g' of
                       Inl e \<Rightarrow> Inl e
                     | Inr (rows, g'') \<Rightarrow>
                         Inr (map (\<lambda>i. squeeze (img_feat ! (perm_ids ! i))) [0..<k] # rows, g''))))"

definition set_classification_task ::
  "config \<Rightarrow> 'a feature_pool \<Rightarrow> rng \<Rightarrow> error + ('a episode \<times> rng)" where
  "set_classification_task cfg features_per_label g =
     (case choice (map fst features_per_label) (test_n_way cfg) g of
        Inl e \<Rightarrow> Inl e
      | Inr (select_class, g1) \<Rightarrow>
          (case class_loop features_per_label (n_shot cfg + n_query cfg) select_class g1 of
             Inl e \<Rightarrow> Inl e
           | Inr (z_all, g2) \<Rightarrow>
               (case np_array z_all of
                  Inl e \<Rightarrow> Inl e
                | Inr z \<Rightarrow> random_swap_numpy z (n_swaps cfg) (n_shot cfg) g2)))"

subsection \<open>Floating point results\<close>

text \<open>
  Accuracies are floating point numbers. They are modelled by real numbers, with \<open>None\<close>
  for the results numpy reports as \<open>nan\<close> or \<open>inf\<close> (the mean of no number, a division by
  zero): numpy returns these with a warning, it does not raise.
\<close>

type_synonym pyfloat = "real option"

text \<open>\<open>np.mean\<close> and \<open>np.std\<close> (the population standard deviation) of finite numbers.\<close>

definition np_mean :: "real list \<Rightarrow> pyfloat" where
  "np_mean xs = (if xs = [] then None else Some (sum_list xs / real (length xs)))"

definition np_std :: "real list \<Rightarrow> pyfloat" where
  "np_std xs =
     (case np_mean xs of
        None \<Rightarrow> None
      | Some m \<Rightarrow> Some (sqrt (sum_list (map (\<lambda>x. (x - m)\<^sup>2) xs) / real (length xs))))"

text \<open>The same on an array that may hold \<open>nan\<close>: one \<open>nan\<close> makes the result \<open>nan\<close>.\<close>

definition np_mean_all :: "pyfloat list \<Rightarrow> pyfloat" where
  "np_mean_all xs = (case those xs of None \<Rightarrow> None | Some ys \<Rightarrow> np_mean ys)"

definition np_std_all :: "pyfloat list \<Rightarrow> pyfloat" where
  "np_std_all xs = (case those xs of None \<Rightarrow> None | Some ys \<Rightarrow> np_std ys)"

subsection \<open>The confidence interval: \<open>_confidence_interval\<close>\<close>

text \<open>
  \<^verbatim>\<open>return 1.96 * std / np.sqrt(self.n_iter)\<close>
  With \<open>n_iter = 0\<close> the division is by zero and the result is not a finite number.
\<close>

definition confidence_interval :: "config \<Rightarrow> pyfloat \<Rightarrow> pyfloat" where
  "confidence_interval cfg std =
     (case std of
        None \<Rightarrow> None
      | Some s \<Rightarrow> if n_iter cfg = 0 then None else Some (1.96 * s / sqrt (real (n_iter cfg))))"

subsection \<open>The classifier and the other collaborators\<close>

text \<open>
  The classification methods, the backbones, the data loaders and the table \<open>model_dict\<close>
  are defined elsewhere; the step only calls them. They are parameters of the model: a
  record of functions, over an opaque type \<open>'p\<close> of parameter sets. A model object is the
  class it was built from, the arguments of its constructor and its attributes.
\<close>

datatype model_class = BaselineFinetune | ProtoNet | MatchingNet | RelationNet | MAML

record 'p model =
  model_class :: model_class
  model_func :: string
  loss_type :: string
  approx :: bool
  model_n_way :: nat
  model_n_support :: nat
  model_n_query :: "nat option"
  task_update_num :: "nat option"
  parameters :: 'p
  on_cuda :: bool
  training :: bool

record 'p model_state =
  state :: 'p
  epoch :: int

text \<open>
  \<open>model_dict\<close>: the backbone constructors by name. \<open>init_parameters\<close>: the parameters a
  freshly constructed model starts with. \<open>load_state_dict\<close>: loading a trained parameter
  set into a model, which fails on a set that does not fit. \<open>set_forward\<close> and
  \<open>set_forward_adaptation\<close>: the scores of the query instances of an episode, one row per
  query instance and one column per class; they may draw random numbers. \<open>eval_loop\<close>: the
  evaluation of MAML on the images of a data loader, built from the image size and the
  configuration (data set, split, episode counts, swaps); it returns the mean and the
  deviation of the accuracy.
\<close>

record ('p, 'a) collaborators =
  model_dict :: "(string \<times> string) list"
  init_parameters :: "model_class \<Rightarrow> string \<Rightarrow> string \<Rightarrow> bool \<Rightarrow> nat \<Rightarrow> nat \<Rightarrow> 'p"
  load_state_dict :: "'p model \<Rightarrow> 'p \<Rightarrow> error + 'p"
  set_forward :: "'p model \<Rightarrow> 'a episode \<Rightarrow> rng \<Rightarrow> error + (real list list \<times> rng)"
  set_forward_adaptation :: "'p model \<Rightarrow> 'a episode \<Rightarrow> rng \<Rightarrow> error + (real list list \<times> rng)"
  eval_loop :: "'p model \<Rightarrow> nat \<Rightarrow> config \<Rightarrow> rng \<Rightarrow> error + ((pyfloat \<times> pyfloat) \<times> rng)"

subsection \<open>Loading the model: \<open>_load_model\<close>\<close>

text \<open>\<open>model_dict[self.backbone]\<close>; KeyError for a name that is not in the table.\<close>

definition model_dict_get :: "('p, 'a) collaborators \<Rightarrow> string \<Rightarrow> error + string" where
  "model_dict_get env name =
     (case map_of (model_dict env) name of
        None \<Rightarrow> Inl (KeyError name)
      | Some f \<Rightarrow> Inr f)"

text \<open>A model as its constructor leaves it: in training mode, not on the GPU.\<close>

definition construct ::
  "('p, 'a) collaborators \<Rightarrow> model_class \<Rightarrow> string \<Rightarrow> string \<Rightarrow> bool \<Rightarrow> config \<Rightarrow> 'p model" where
  "construct env cls func loss apx cfg =
     \<lparr> model_class = cls, model_func = func, loss_type = loss, approx = apx,
       model_n_way = test_n_way cfg, model_n_support = n_shot cfg,
       model_n_query = None, task_update_num = None,
       parameters = init_parameters env cls func loss apx (test_n_way cfg) (n_shot cfg),
       on_cuda = False, training = True \<rparr>"

text \<open>
  The chain of tests on \<open>self.method\<close>. The table \<open>model_dict\<close> is read only in the
  branches that name it; the last branch is \<open>raise ValueError('Unknown method')\<close>. The
  MAML branch first switches the backbone blocks to MAML mode, a mutation of class attributes
  of the backbones, and then builds the model. The second component of the result says
  whether that switch was made; it is made also when building the model then fails.
\<close>

definition define_model ::
  "config \<Rightarrow> ('p, 'a) collaborators \<Rightarrow> (error + 'p model) \<times> bool" where
  "define_model cfg env =
     (if method_name cfg = ''baseline'' then
        (case model_dict_get env (backbone cfg) of
           Inl e \<Rightarrow> Inl e
         | Inr f \<Rightarrow> Inr (construct env BaselineFinetune f ''softmax'' False cfg),
         False)
      else if method_name cfg = ''baseline++'' then
        (case model_dict_get env (backbone cfg) of
           Inl e \<Rightarrow> Inl e
         | Inr f \<Rightarrow> Inr (construct env BaselineFinetune f ''dist'' False cfg),
         False)
      else if method_name cfg = ''protonet'' then
        (case model_dict_get env (backbone cfg) of
           Inl e \<Rightarrow> Inl e
         | Inr f \<Rightarrow> Inr (construct env ProtoNet f ''softmax'' False cfg),
         False)
      else if method_name cfg = ''matchingnet'' then
        (case model_dict_get env (backbone cfg) of
           Inl e \<Rightarrow> Inl e
         | Inr f \<Rightarrow> Inr (construct env MatchingNet f ''softmax'' False cfg),
         False)
      else if method_name cfg \<in> set [''relationnet'', ''relationnet_softmax''] then
        (let feature_model =
               (if backbone cfg = ''Conv4'' then Inr ''Conv4NP''
                else if backbone cfg = ''Conv6'' then Inr ''Conv6NP''
                else if backbone cfg = ''Conv4S'' then Inr ''Conv4SNP''
                else (case model_dict_get env (backbone cfg) of
                        Inl e \<Rightarrow> Inl e
                      | Inr f \<Rightarrow> Inr (f @ ''(flatten=False)'')));
             loss = (if method_name cfg = ''relationnet'' then ''mse'' else ''softmax'')
         in (case feature_model of
               Inl e \<Rightarrow> Inl e
             | Inr fm \<Rightarrow> Inr (construct env RelationNet fm loss False cfg),
             False))
      else if method_name cfg \<in> set [''maml'', ''maml_approx''] then
        (case model_dict_get env (backbone cfg) of
           Inl e \<Rightarrow> Inl e
         | Inr f \<Rightarrow>
             Inr (construct env MAML f ''softmax'' (method_name cfg = ''maml_approx'') cfg),
         True)
      else (Inl (ValueError ''Unknown method''), False))"

text \<open>
  \<^verbatim>\<open>model = model.cuda()
  if not self.method in ['baseline', 'baseline++']:
      model.load_state_dict(model_state['state'])
  model.eval()\<close>
  The result is the loaded model, or the exception, with the MAML switch of the backbones.
\<close>

definition load_model ::
  "config \<Rightarrow> ('p, 'a) collaborators \<Rightarrow> 'p model_state \<Rightarrow> (error + 'p model) \<times> bool" where
  "load_model cfg env ms =
     (case define_model cfg env of
        (Inl e, maml_flag) \<Rightarrow> (Inl e, maml_flag)
      | (Inr model0, maml_flag) \<Rightarrow>
          let model1 = model0\<lparr>on_cuda := True\<rparr> in
          if method_name cfg \<notin> set [''baseline'', ''baseline++''] then
            (case load_state_dict env model1 (state ms) of
               Inl e \<Rightarrow> (Inl e, maml_flag)
             | Inr ps \<Rightarrow> (Inr (model1\<lparr>parameters := ps, training := False\<rparr>), maml_flag))
          else (Inr (model1\<lparr>training := False\<rparr>), maml_flag))"

subsection \<open>One episode: \<open>_feature_evaluation\<close>\<close>

text \<open>\<open>row.argmax()\<close>: the index of the first largest entry; ValueError on an empty row.\<close>

fun argmax_from :: "real \<Rightarrow> nat \<Rightarrow> nat \<Rightarrow> real list \<Rightarrow> nat" where
  "argmax_from best besti i [] = besti"
| "argmax_from best besti i (x # xs) =
     (if best < x then argmax_from x i (Suc i) xs else argmax_from best besti (Suc i) xs)"

fun argmax_axis1 :: "real list list \<Rightarrow> error + nat list" where
  "argmax_axis1 [] = Inr []"
| "argmax_axis1 (row # rows) =
     (case row of
        [] \<Rightarrow> Inl (ValueError ''attempt to get argmax of an empty sequence'')
      | x # xs \<Rightarrow>
          (case argmax_axis1 rows of
             Inl e \<Rightarrow> Inl e
           | Inr ps \<Rightarrow> Inr (argmax_from x 0 1 xs # ps)))"

text \<open>\<open>np.repeat(range(n_way), n_query)\<close>.\<close>

definition np_repeat_range :: "nat \<Rightarrow> nat \<Rightarrow> nat list" where
  "np_repeat_range way query = concat (map (replicate query) [0..<way])"

text \<open>
  \<open>pred == y\<close> on two one-axis arrays: element by element when the lengths agree, an
  array of length one is broadcast, and other lengths cannot be compared.
\<close>

definition np_equal :: "nat list \<Rightarrow> nat list \<Rightarrow> error + bool list" where
  "np_equal pred y =
     (if length pred = length y then Inr (map (\<lambda>(p, t). p = t) (zip pred y))
      else if length pred = 1 then Inr (map (\<lambda>t. pred ! 0 = t) y)
      else if length y = 1 then Inr (map (\<lambda>p. p = y ! 0) pred)
      else Inl (ValueError ''operands could not be broadcast together''))"

definition feature_evaluation ::
  "config \<Rightarrow> ('p, 'a) collaborators \<Rightarrow> 'a feature_pool \<Rightarrow> 'p model \<Rightarrow> rng \<Rightarrow>
     error + (pyfloat \<times> 'p model \<times> rng)" where
  "feature_evaluation cfg env features_per_label model g =
     (case set_classification_task cfg features_per_label g of
        Inl e \<Rightarrow> Inl e
      | Inr (z_all, g1) \<Rightarrow>
          let model' = model\<lparr>model_n_query := Some (n_query cfg)\<rparr> in
          (case (if adaptation cfg then set_forward_adaptation env model' z_all g1
                 else set_forward env model' z_all g1) of
             Inl e \<Rightarrow> Inl e
           | Inr (scores, g2) \<Rightarrow>
               (case argmax_axis1 scores of
                  Inl e \<Rightarrow> Inl e
                | Inr pred \<Rightarrow>
                    (case np_equal pred (np_repeat_range (test_n_way cfg) (n_query cfg)) of
                       Inl e \<Rightarrow> Inl e
                     | Inr hits \<Rightarrow>
                         Inr (map_option (\<lambda>m. m * 100) (np_mean (map of_bool hits)),
                              model', g2)))))"

subsection \<open>The run: \<open>apply\<close>\<close>

text \<open>\<open>str\<close> of an integer, for the descriptor of the experimental setting.\<close>

function str_nat :: "nat \<Rightarrow> string" where
  "str_nat n =
     (if n < 10 then [''0123456789'' ! n]
      else str_nat (n div 10) @ [''0123456789'' ! (n mod 10)])"
  by pat_completeness auto
termination
  by (relation "measure id") auto

declare str_nat.simps [simp del]

definition str_int :: "int \<Rightarrow> string" where
  "str_int i = (if i < 0 then ''-'' @ str_nat (nat (- i)) else str_nat (nat i))"

text \<open>\<open>'Conv' in self.backbone\<close>: the first string occurs in the second.\<close>

fun str_contains :: "string \<Rightarrow> string \<Rightarrow> bool" where
  "str_contains sub [] = (sub = [])"
| "str_contains sub (c # cs) = (take (length sub) (c # cs) = sub \<or> str_contains sub cs)"

text \<open>
  What one run appends to \<open>results.txt\<close>: the arguments of the format
  \<^verbatim>\<open>'Setting: %s\n Retrieved model from epoch %s\n Acc: %s \n'\<close>,
  the last one being \<^verbatim>\<open>'%d Test Acc = %4.2f%% +- %4.2f%%'\<close> of the number of episodes,
  the mean accuracy and the confidence interval. The numbers are kept as they are; their
  rounding to two decimals is not modelled.
\<close>

record log_entry =
  exp_setting :: string
  retrieved_epoch :: int
  acc_n_iter :: nat
  acc_mean_written :: pyfloat
  acc_interval_written :: pyfloat

text \<open>
  The state a run works on: numpy's generator, as \<open>set_and_print_random_seed\<close> leaves
  it, the contents of \<open>results.txt\<close> and the MAML switch of the backbone classes. Lines
  printed to the console are not part of the model.
\<close>

record run_state =
  generator :: rng
  results_txt :: "log_entry list"
  backbone_maml :: bool

text \<open>
  The loop \<^verbatim>\<open>for i in range(self.n_iter): acc = self._feature_evaluation(...); acc_all.append(acc)\<close>
  over the number of episodes still to run; an exception in an episode ends it.
\<close>

fun episode_loop ::
  "config \<Rightarrow> ('p, 'a) collaborators \<Rightarrow> 'a feature_pool \<Rightarrow> nat \<Rightarrow> 'p model \<Rightarrow> rng \<Rightarrow>
     pyfloat list \<Rightarrow> error + (pyfloat list \<times> rng)" where
  "episode_loop cfg env pool 0 model g acc_all = Inr (acc_all, g)"
| "episode_loop cfg env pool (Suc k) model g acc_all =
     (case feature_evaluation cfg env pool model g of
        Inl e \<Rightarrow> Inl e
      | Inr (acc, model', g') \<Rightarrow> episode_loop cfg env pool k model' g' (acc_all @ [acc]))"

definition make_exp_setting :: "config \<Rightarrow> string" where
  "make_exp_setting cfg =
     (let split_str = (if save_iter cfg \<noteq> - 1 then split cfg @ ''_'' @ str_int (save_iter cfg)
                       else split cfg);
          aug_str = (if train_aug cfg then ''-aug'' else [])
                    @ (if adaptation cfg then ''-adapted'' else [])
      in if method_name cfg \<in> set [''baseline'', ''baseline++''] then
           dataset cfg @ ''-'' @ split_str @ ''-'' @ backbone cfg @ ''-'' @ method_name cfg
             @ aug_str @ '' '' @ str_nat (n_shot cfg) @ ''shot '' @ str_nat (test_n_way cfg)
             @ ''way_test '' @ str_nat (n_swaps cfg) @ ''swaps''
         else
           dataset cfg @ ''-'' @ split_str @ ''-'' @ backbone cfg @ ''-'' @ method_name cfg
             @ aug_str @ '' '' @ str_nat (n_shot cfg) @ ''shot '' @ str_nat (train_n_way cfg)
             @ ''way_train '' @ str_nat (test_n_way cfg) @ ''way_test'')"

text \<open>
  The statistics of the run: by \<open>eval_loop\<close> on images for MAML, by the episode loop on the
  feature pool for the other methods. \<open>features_and_labels\<close> defaults to \<open>None\<close>, which
  cannot be unpacked (TypeError).
\<close>

definition run_statistics ::
  "config \<Rightarrow> ('p, 'a::zero) collaborators \<Rightarrow> 'p model \<Rightarrow>
     ('a list list \<times> int list) option \<Rightarrow> rng \<Rightarrow> error + ((pyfloat \<times> pyfloat) \<times> rng)" where
  "run_statistics cfg env model features_and_labels g =
     (if method_name cfg \<in> set [''maml'', ''maml_approx''] then
        (let image_size = (if str_contains ''Conv'' (backbone cfg) then 84 else 224);
             model1 = (if adaptation cfg then model\<lparr>task_update_num := Some 100\<rparr> else model);
             model2 = model1\<lparr>training := False\<rparr>
         in eval_loop env model2 image_size cfg g)
      else
        (case features_and_labels of
           None \<Rightarrow> Inl (TypeError ''cannot unpack non-iterable NoneType object'')
         | Some fl \<Rightarrow>
             (case process_features fl of
                Inl e \<Rightarrow> Inl e
              | Inr features_per_label \<Rightarrow>
                  (case episode_loop cfg env features_per_label (n_iter cfg) model g [] of
                     Inl e \<Rightarrow> Inl e
                   | Inr (acc_all, g') \<Rightarrow>
                       Inr ((np_mean_all acc_all, np_std_all acc_all), g')))))"

text \<open>
  \<open>apply\<close> (named \<open>apply_step\<close> here): the result is the mean accuracy or the
  exception that ended the run, with the state the run leaves. The file is opened for
  appending only after the statistics.
\<close>

definition apply_step ::
  "config \<Rightarrow> ('p, 'a::zero) collaborators \<Rightarrow> 'p model_state \<Rightarrow>
     ('a list list \<times> int list) option \<Rightarrow> run_state \<Rightarrow> (error + pyfloat) \<times> run_state" where
  "apply_step cfg env ms features_and_labels st =
     (case load_model cfg env ms of
        (loaded, maml_flag) \<Rightarrow>
          let st1 = st\<lparr>backbone_maml := backbone_maml st \<or> maml_flag\<rparr> in
          (case loaded of
             Inl e \<Rightarrow> (Inl e, st1)
           | Inr model \<Rightarrow>
               (case run_statistics cfg env model features_and_labels (generator st1) of
                  Inl e \<Rightarrow> (Inl e, st1)
                | Inr ((acc_mean, acc_std), g') \<Rightarrow>
                    (Inr acc_mean,
                     st1\<lparr>generator := g',
                         results_txt := results_txt st1 @
                           [\<lparr> exp_setting = make_exp_setting cfg,
                              retrieved_epoch = epoch ms,
                              acc_n_iter = n_iter cfg,
                              acc_mean_written = acc_mean,
                              acc_interval_written = confidence_interval cfg acc_std \<rparr>]\<rparr>))))"

subsection \<open>A configuration and stub collaborators for concrete runs\<close>

text \<open>
  The stub classifier scores class 0 highest for every query instance; the other stubs
  return fixed values.
\<close>

definition example_config :: config where
  "example_config =
     \<lparr> dataset = ''CUB'', backbone = ''Conv4'', method_name = ''protonet'',
       train_n_way = 5, test_n_way = 2, n_shot = 1, n_query = 1, train_aug = False,
       split = ''novel'', save_iter = - 1, n_iter = 2, adaptation = False,
       random_seed = None, n_swaps = 0 \<rparr>"

definition stub_scores :: "nat model \<Rightarrow> real list list" where
  "stub_scores m =
     replicate (model_n_way m * (case model_n_query m of None \<Rightarrow> 0 | Some q \<Rightarrow> q))
       (1 # replicate (model_n_way m - 1) 0)"

definition stub_collaborators :: "(nat, real) collaborators" where
  "stub_collaborators =
     \<lparr> model_dict = [(''Conv4'', ''Conv4''), (''ResNet10'', ''ResNet10'')],
       init_parameters = (\<lambda>cls func loss apx way support. 0),
       load_state_dict = (\<lambda>m ps. Inr ps),
       set_forward = (\<lambda>m z g. Inr (stub_scores m, g)),
       set_forward_adaptation = (\<lambda>m z g. Inr (stub_scores m, g)),
       eval_loop = (\<lambda>m image_size data g. Inr ((Some 50, Some 1), g)) \<rparr>"

definition example_state :: run_state where
  "example_state = \<lparr> generator = (\<lambda>i. i), results_txt = [], backbone_maml = False \<rparr>"

definition constant_draws :: rng where
  "constant_draws = (\<lambda>i. 0)"

definition example_pool :: "real feature_pool" where
  "example_pool = [(3, [[1, 0], [2, 0]]), (4, [[0, 1], [0, 2]])]"

definition thin_pool :: "real feature_pool" where
  "thin_pool = [(0, [[5], [6]]), (1, [[7], [8]])]"

subsection \<open>Provenance of the cells of an episode\<close>

text \<open>
  To state which instance of the pool a cell of an episode holds, a cell is traced to a pair
  of a class label and an index into that class's list of vectors: \<open>instance_at\<close> is the
  cell such a pair stands for, and \<open>row_of\<close> says that a row of pairs is \<open>k\<close> different
  valid instances of one class.
\<close>

definition instance_at :: "'a feature_pool \<Rightarrow> int \<times> nat \<Rightarrow> 'a ndarray" where
  "instance_at pool ci = squeeze (the (map_of pool (fst ci)) ! snd ci)"

definition row_of :: "'a feature_pool \<Rightarrow> nat \<Rightarrow> int \<Rightarrow> (int \<times> nat) list \<Rightarrow> bool" where
  "row_of pool k cl row =
     (length row = k \<and> distinct row \<and>
      list_all (\<lambda>x. fst x = cl \<and> snd x < length (the (map_of pool cl))) row)"

section \<open>Properties of the FeaturePool builder\<close>

lemma dict_append_keys:
  "k \<in> set (map fst d) \<Longrightarrow> \<exists>d'. dict_append k v d = Inr d' \<and> map fst d' = map fst d"
proof (induction d)
  case Nil
  then show ?case by simp
next
  case (Cons p d)
  obtain k' vs where p: "p = (k', vs)" by (cases p)
  show ?case
  proof (cases "k = k'")
    case True
    with p show ?thesis by simp
  next
    case False
    with Cons.prems p have "k \<in> set (map fst d)" by simp
    from Cons.IH [OF this] obtain d' where "dict_append k v d = Inr d'" "map fst d' = map fst d"
      by blast
    with False p show ?thesis by simp
  qed
qed

lemma group_loop_keys:
  "\<forall>ind \<in> set inds. ind < length features \<and> labels ! ind \<in> set (map fst d) \<Longrightarrow>
   \<exists>d'. group_loop features labels inds d = Inr d' \<and> map fst d' = map fst d"
proof (induction inds arbitrary: d)
  case Nil
  then show ?case by simp
next
  case (Cons ind inds)
  from Cons.prems have k: "labels ! ind \<in> set (map fst d)" and b: "ind < length features"
    by simp_all
  from dict_append_keys [OF k, of "features ! ind"] obtain d1 where
    d1: "dict_append (labels ! ind) (features ! ind) d = Inr d1" "map fst d1 = map fst d"
    by blast
  have "\<forall>i \<in> set inds. i < length features \<and> labels ! i \<in> set (map fst d1)"
    using Cons.prems d1(2) by simp
  from Cons.IH [OF this] obtain d' where
    ih: "group_loop features labels inds d1 = Inr d'" "map fst d' = map fst d1" by blast
  from k have "map_of d (labels ! ind) \<noteq> None" by (simp add: map_of_eq_None_iff)
  with d1 b ih show ?case by simp
qed

lemma trim_trailing_ok:
  "list_ex any_nonzero features \<Longrightarrow> length features = length labels \<Longrightarrow>
   \<exists>n. 0 < n \<and> n \<le> length features \<and>
       trim_trailing features labels = Inr (take n features, take n labels) \<and>
       any_nonzero (features ! (n - 1)) \<and>
       (\<forall>i. n \<le> i \<and> i < length features \<longrightarrow> \<not> any_nonzero (features ! i))"
proof (induction features labels rule: trim_trailing.induct)
  case (1 features labels)
  from "1.prems" have ne: "features \<noteq> []" by auto
  show ?case
  proof (cases "any_nonzero (last features)")
    case True
    then have "trim_trailing features labels = Inr (features, labels)"
      using ne by (simp add: trim_trailing.simps)
    moreover have "any_nonzero (features ! (length features - 1))"
      using True ne by (simp add: last_conv_nth)
    ultimately show ?thesis
      using ne "1.prems"(2) by (intro exI [of _ "length features"]) auto
  next
    case False
    from ne "1.prems"(2) have lne: "labels \<noteq> []" by auto
    have ex: "list_ex any_nonzero (butlast features)"
    proof -
      from "1.prems"(1) obtain r where r: "r \<in> set features" "any_nonzero r"
        by (auto simp: list_ex_iff)
      have "features = butlast features @ [last features]" using ne by simp
      then have "set features = set (butlast features) \<union> {last features}"
        by (metis list.simps(15) set_append empty_set)
      with r False have "r \<in> set (butlast features)" by auto
      with r(2) show ?thesis by (auto simp: list_ex_iff)
    qed
    have len: "length (butlast features) = length (butlast labels)"
      using "1.prems"(2) by simp
    from "1.IH" [OF ne False lne ex len] obtain n where n:
      "0 < n" "n \<le> length (butlast features)"
      "trim_trailing (butlast features) (butlast labels) = Inr (take n (butlast features), take n (butlast labels))"
      "any_nonzero (butlast features ! (n - 1))"
      "\<forall>i. n \<le> i \<and> i < length (butlast features) \<longrightarrow> \<not> any_nonzero (butlast features ! i)"
      by blast
    have t: "trim_trailing features labels = trim_trailing (butlast features) (butlast labels)"
      using ne False lne by (subst trim_trailing.simps) simp
    have tk: "take n (butlast features) = take n features" "take n (butlast labels) = take n labels"
    proof -
      from n(2) ne have "n < length features" by (cases features rule: rev_cases) auto
      moreover from this "1.prems"(2) have "n < length labels" by simp
      ultimately show "take n (butlast features) = take n features"
        "take n (butlast labels) = take n labels" by (simp_all add: take_butlast)
    qed
    have nz: "any_nonzero (features ! (n - 1))"
      using n(1,2,4) by (simp add: nth_butlast)
    have zs: "\<forall>i. n \<le> i \<and> i < length features \<longrightarrow> \<not> any_nonzero (features ! i)"
    proof (intro allI impI)
      fix i assume i: "n \<le> i \<and> i < length features"
      show "\<not> any_nonzero (features ! i)"
      proof (cases "i < length (butlast features)")
        case True
        with n(5) i show ?thesis by (simp add: nth_butlast)
      next
        case False
        with i have "i = length features - 1" by auto
        with \<open>\<not> any_nonzero (last features)\<close> ne show ?thesis by (simp add: last_conv_nth)
      qed
    qed
    from n(1,2) t n(3) tk nz zs show ?thesis
      by (intro exI [of _ n]) simp
  qed
qed

lemma trim_trailing_all_zero:
  "\<not> list_ex any_nonzero features \<Longrightarrow> \<exists>m. trim_trailing features labels = Inl (IndexError m)"
proof (induction features labels rule: trim_trailing.induct)
  case (1 features labels)
  show ?case
  proof (cases "features = []")
    case True
    then show ?thesis by (simp add: trim_trailing.simps)
  next
    case ne: False
    then have "last features \<in> set features" by simp
    with "1.prems" have z: "\<not> any_nonzero (last features)" by (auto simp: list_ex_iff)
    show ?thesis
    proof (cases "labels = []")
      case True
      with ne z show ?thesis by (subst trim_trailing.simps) simp
    next
      case False
      have "\<not> list_ex any_nonzero (butlast features)"
        using "1.prems" by (auto simp: list_ex_iff dest: in_set_butlastD)
      from "1.IH" [OF ne z False this] obtain m where
        "trim_trailing (butlast features) (butlast labels) = Inl (IndexError m)" by blast
      with ne z False show ?thesis by (subst trim_trailing.simps) simp
    qed
  qed
qed

lemma process_features_unfold:
  assumes "trim_trailing features labels = Inr (features', labels')"
  shows "process_features (features, labels) =
           group_loop features' labels' [0..<length labels']
             (map (\<lambda>label. (label, [])) (np_unique labels'))"
  using assms by (simp add: process_features_def)

lemma np_unique_keys: "map fst (map (\<lambda>label. (label, [])) (np_unique ls)) = np_unique ls"
  by (simp add: comp_def)

text \<open>
  C6 (as stated): the keys of the pool appear in the order of each label's first occurrence.
  It fails on the labels 2, 1: the keys come out as 1, 2.
\<close>

theorem process_features_first_occurrence_counterexample:
  "process_features ([[1], [1::real]], [2, 1]) = Inr [(1, [[1]]), (2, [[1]])]
   \<and> first_occurrence_order [2, 1] = [2, 1]"
  by (simp add: process_features_def trim_trailing.simps any_nonzero_def np_unique_def
      first_occurrence_order_def)

text \<open>
  C6 (amended): for aligned features and labels with some row that is not all zero, the
  builder returns a pool; with \<open>n\<close> the number of rows kept by the trimming (row \<open>n - 1\<close> is
  the last row that is not all zero), the keys of the pool are the distinct labels of the
  first \<open>n\<close> instances in ascending order, the order \<open>np.unique\<close> inserts them in.
\<close>

theorem process_features_keys_sorted:
  fixes features :: "'a::zero list list"
  assumes "length features = length labels" and "list_ex any_nonzero features"
  shows "\<exists>pool n. process_features (features, labels) = Inr pool
           \<and> 0 < n \<and> n \<le> length labels
           \<and> any_nonzero (features ! (n - 1))
           \<and> (\<forall>i. n \<le> i \<and> i < length features \<longrightarrow> \<not> any_nonzero (features ! i))
           \<and> sorted (map fst pool) \<and> distinct (map fst pool)
           \<and> set (map fst pool) = set (take n labels)"
proof -
  from trim_trailing_ok [OF assms(2,1)] obtain n where n:
    "0 < n" "n \<le> length features"
    "trim_trailing features labels = Inr (take n features, take n labels)"
    "any_nonzero (features ! (n - 1))"
    "\<forall>i. n \<le> i \<and> i < length features \<longrightarrow> \<not> any_nonzero (features ! i)"
    by blast
  let ?d = "map (\<lambda>label. (label, [] :: 'a list list)) (np_unique (take n labels))"
  have keys: "map fst ?d = np_unique (take n labels)" by (rule np_unique_keys)
  have "\<forall>ind \<in> set [0..<length (take n labels)].
          ind < length (take n features) \<and> take n labels ! ind \<in> set (map fst ?d)"
  proof
    fix ind assume "ind \<in> set [0..<length (take n labels)]"
    then have i: "ind < length (take n labels)" by simp
    then have "take n labels ! ind \<in> set (take n labels)" by (rule nth_mem)
    moreover from i assms(1) n(2) have "ind < length (take n features)" by simp
    ultimately show "ind < length (take n features) \<and> take n labels ! ind \<in> set (map fst ?d)"
      unfolding keys by (simp add: np_unique_def)
  qed
  from group_loop_keys [OF this] obtain pool where pool:
    "group_loop (take n features) (take n labels) [0..<length (take n labels)] ?d = Inr pool"
    "map fst pool = map fst ?d" by blast
  have "process_features (features, labels) = Inr pool"
    using process_features_unfold [OF n(3)] pool(1) by simp
  moreover have "map fst pool = sort (remdups (take n labels))"
    using pool(2) keys by (simp add: np_unique_def)
  ultimately show ?thesis
    using n(1,2,4,5) assms(1) by (intro exI [of _ pool] exI [of _ n]) simp
qed

theorem process_features_keys_sorted_witness:
  "\<exists>pool n. process_features ([[1], [1], [0::real]], [2, 1, 0]) = Inr pool
           \<and> 0 < n \<and> n \<le> length [2, 1, 0::int]
           \<and> sorted (map fst pool) \<and> distinct (map fst pool)
           \<and> set (map fst pool) = set (take n [2, 1, 0])"
proof -
  have "length [[1], [1], [0::real]] = length [2, 1, 0::int]" by simp
  moreover have "list_ex any_nonzero [[1], [1], [0::real]]" by (simp add: any_nonzero_def)
  ultimately show ?thesis
    using process_features_keys_sorted [of "[[1], [1], [0::real]]" "[2, 1, 0]"] by blast
qed

lemma process_features_all_zero:
  "\<not> list_ex any_nonzero features \<Longrightarrow>
   \<exists>m. process_features (features, labels) = Inl (IndexError m)"
  using trim_trailing_all_zero [of features labels] by (auto simp: process_features_def)

text \<open>
  C9: when every row of \<open>features\<close> is all zero the builder should return the pool with no
  class. The trimming loop has no test for the array becoming empty: it deletes every row
  and then reads \<open>features[-1]\<close> of an array without rows, which raises IndexError.
\<close>

theorem process_features_all_zero_raises:
  "process_features ([[0, 0], [0, 0], [0, 0::real]], [0, 1, 2])
     = Inl (IndexError ''index -1 is out of bounds for axis 0 with size 0'')"
  by (simp add: process_features_def trim_trailing.simps any_nonzero_def)

section \<open>Properties of the random generator and of the episode sampler\<close>

lemma random_interval_le: "random_interval mx g = (j, g') \<Longrightarrow> j \<le> mx"
  by (auto simp: random_interval_def less_Suc_eq_le [symmetric])

lemma swap_at_mset: "i < length xs \<Longrightarrow> j < length xs \<Longrightarrow> mset (swap_at i j xs) = mset xs"
  unfolding swap_at_def by (simp add: mset_swap)

lemma swap_at_length: "length (swap_at i j xs) = length xs"
  by (simp add: swap_at_def)

lemma shuffle_loop_mset:
  "i < length xs \<Longrightarrow> mset (fst (shuffle_loop i xs g)) = mset xs"
proof (induction i arbitrary: xs g)
  case 0
  then show ?case by simp
next
  case (Suc i)
  obtain j g' where r: "random_interval (Suc i) g = (j, g')" by (cases "random_interval (Suc i) g")
  then have "j \<le> Suc i" by (rule random_interval_le)
  with Suc.prems have j: "j < length xs" by simp
  have "i < length (swap_at (Suc i) j xs)" using Suc.prems by (simp add: swap_at_length)
  from Suc.IH [OF this] have "mset (fst (shuffle_loop i (swap_at (Suc i) j xs) g')) = mset xs"
    using swap_at_mset [OF Suc.prems j] by simp
  with r show ?case by simp
qed

lemma permutation_mset: "mset (fst (permutation n g)) = mset [0..<n]"
proof (cases n)
  case 0
  then show ?thesis by (simp add: permutation_def)
next
  case (Suc m)
  then show ?thesis unfolding permutation_def by (simp add: shuffle_loop_mset del: upt_Suc)
qed

lemma permutation_props:
  "distinct (fst (permutation n g))" "set (fst (permutation n g)) = {0..<n}"
  "length (fst (permutation n g)) = n"
proof -
  have m: "mset (fst (permutation n g)) = mset [0..<n]" by (rule permutation_mset)
  show "distinct (fst (permutation n g))"
    using mset_eq_imp_distinct_iff [OF m] by simp
  show "set (fst (permutation n g)) = {0..<n}"
    using mset_eq_setD [OF m] by simp
  show "length (fst (permutation n g)) = n"
    using mset_eq_length [OF m] by simp
qed

lemma choice_ok:
  assumes "sz \<le> length a"
  shows "\<exists>sel g'. choice a sz g = Inr (sel, g') \<and> length sel = sz \<and> set sel \<subseteq> set a
           \<and> (distinct a \<longrightarrow> distinct sel)"
proof -
  obtain idx g' where p: "permutation (length a) g = (idx, g')"
    by (cases "permutation (length a) g")
  from permutation_props [of "length a" g] p
  have idx: "distinct idx" "set idx = {0..<length a}" "length idx = length a" by simp_all
  let ?sel = "map (\<lambda>i. a ! i) (take sz idx)"
  have c: "choice a sz g = Inr (?sel, g')"
    using assms p by (auto simp: choice_def)
  have sub: "set (take sz idx) \<subseteq> {0..<length a}"
    using idx(2) set_take_subset [of sz idx] by simp
  have l: "length ?sel = sz" using assms idx(3) by simp
  have s: "set ?sel \<subseteq> set a" using sub by auto
  have d: "distinct a \<longrightarrow> distinct ?sel"
  proof
    assume da: "distinct a"
    have "inj_on (\<lambda>i. a ! i) (set (take sz idx))"
    proof (rule inj_onI)
      fix x y assume "x \<in> set (take sz idx)" "y \<in> set (take sz idx)" and e: "a ! x = a ! y"
      with sub have "x < length a" "y < length a" by auto
      with da e show "x = y" by (simp add: nth_eq_iff_index_eq)
    qed
    moreover have "distinct (take sz idx)" using idx(1) by simp
    ultimately show "distinct ?sel" by (simp add: distinct_map)
  qed
  from c l s d show ?thesis by blast
qed

lemma choice_too_few:
  "length a < sz \<Longrightarrow> \<exists>m. choice a sz g = Inl (ValueError m)"
  by (auto simp: choice_def)

lemma take_as_map_nth: "k \<le> length xs \<Longrightarrow> map (\<lambda>i. xs ! i) [0..<k] = take k xs"
  by (rule nth_equalityI) simp_all

lemma class_loop_ok:
  assumes "\<forall>cl \<in> set cls. \<exists>feats. map_of pool cl = Some feats \<and> k \<le> length feats"
  shows "\<exists>cells g'. class_loop pool k cls g = Inr (map (map (instance_at pool)) cells, g')
           \<and> list_all2 (row_of pool k) cls cells"
  using assms
proof (induction cls arbitrary: g)
  case Nil
  then show ?case by simp
next
  case (Cons cl cls)
  from Cons.prems obtain feats where f: "map_of pool cl = Some feats" "k \<le> length feats"
    by auto
  obtain perm_ids g1 where p: "permutation (length feats) g = (perm_ids, g1)"
    by (cases "permutation (length feats) g")
  from permutation_props [of "length feats" g] p
  have pp: "distinct perm_ids" "set perm_ids = {0..<length feats}" "length perm_ids = length feats"
    by simp_all
  from Cons.prems have "\<forall>c \<in> set cls. \<exists>feats. map_of pool c = Some feats \<and> k \<le> length feats"
    by simp
  from Cons.IH [OF this, of g1] obtain cells g' where
    ih: "class_loop pool k cls g1 = Inr (map (map (instance_at pool)) cells, g')"
        "list_all2 (row_of pool k) cls cells" by blast
  let ?row = "map (Pair cl) (take k perm_ids)"
  have kl: "k \<le> length perm_ids" using f(2) pp(3) by simp
  have r1: "map (\<lambda>i. squeeze (feats ! (perm_ids ! i))) [0..<k] = map (instance_at pool) ?row"
  proof -
    have "map (\<lambda>i. squeeze (feats ! (perm_ids ! i))) [0..<k]
            = map (\<lambda>j. squeeze (feats ! j)) (map (\<lambda>i. perm_ids ! i) [0..<k])"
      by (simp add: comp_def)
    also have "\<dots> = map (\<lambda>j. squeeze (feats ! j)) (take k perm_ids)"
      by (simp only: take_as_map_nth [OF kl])
    also have "\<dots> = map (instance_at pool) ?row"
      using f(1) by (simp add: instance_at_def comp_def)
    finally show ?thesis .
  qed
  have r2: "row_of pool k cl ?row"
  proof -
    have "distinct ?row" using pp(1) by (simp add: distinct_map inj_on_def)
    moreover have "length ?row = k" using kl by simp
    moreover have "list_all (\<lambda>x. fst x = cl \<and> snd x < length (the (map_of pool cl))) ?row"
    proof -
      have "set (take k perm_ids) \<subseteq> {0..<length feats}"
        using pp(2) set_take_subset [of k perm_ids] by simp
      then show ?thesis using f(1) by (auto simp: list_all_iff)
    qed
    ultimately show ?thesis by (simp add: row_of_def)
  qed
  have "class_loop pool k (cl # cls) g
          = Inr (map (map (instance_at pool)) (?row # cells), g')"
    using f(1) p kl ih(1) r1 by (simp add: dict_get_def)
  moreover have "list_all2 (row_of pool k) (cl # cls) (?row # cells)"
    using r2 ih(2) by simp
  ultimately show ?case by blast
qed

lemma class_loop_short:
  assumes "cl \<in> set cls" "map_of pool cl = Some feats" "length feats < k"
      and "\<forall>c \<in> set cls. map_of pool c \<noteq> None"
  shows "\<exists>m. class_loop pool k cls g = Inl (IndexError m)"
  using assms
proof (induction cls arbitrary: g)
  case Nil
  then show ?case by simp
next
  case (Cons c cls)
  from Cons.prems(4) obtain fc where fc: "map_of pool c = Some fc" by auto
  obtain perm_ids g1 where p: "permutation (length fc) g = (perm_ids, g1)"
    by (cases "permutation (length fc) g")
  from permutation_props(3) [of "length fc" g] p have l: "length perm_ids = length fc" by simp
  show ?case
  proof (cases "length fc < k")
    case True
    with fc p l show ?thesis by (simp add: dict_get_def)
  next
    case False
    with Cons.prems(1,2,3) fc have "cl \<in> set cls" by auto
    from Cons.IH [OF this Cons.prems(2,3), of g1] Cons.prems(4) obtain m where
      "class_loop pool k cls g1 = Inl (IndexError m)" by auto
    with fc p l False show ?thesis by (simp add: dict_get_def)
  qed
qed

lemma rows_length:
  "list_all2 (row_of pool k) cls cells \<Longrightarrow> length cells = length cls \<and> list_all (\<lambda>row. length row = k) cells"
  by (induction rule: list_all2_induct) (simp_all add: row_of_def)

lemma rows_classes:
  "list_all2 (row_of pool k) cls cells \<Longrightarrow>
   map fst (concat cells) = concat (map (replicate k) cls)"
proof (induction rule: list_all2_induct)
  case Nil
  then show ?case by simp
next
  case (Cons cl cls row cells)
  have "map fst row = replicate k cl"
    using Cons.hyps(1) by (intro replicate_eqI) (auto simp: row_of_def list_all_iff)
  with Cons.IH show ?case by simp
qed

lemma rows_distinct:
  "list_all2 (row_of pool k) cls cells \<Longrightarrow> distinct cls \<Longrightarrow> distinct (concat cells)"
proof (induction rule: list_all2_induct)
  case Nil
  then show ?case by simp
next
  case (Cons cl cls row cells)
  have a: "distinct row" "\<forall>x \<in> set row. fst x = cl"
    using Cons.hyps(1) by (auto simp: row_of_def list_all_iff)
  have "set (map fst (concat cells)) \<subseteq> set cls"
    unfolding rows_classes [OF Cons.hyps(2)] by auto
  then have b: "\<forall>x \<in> set (concat cells). fst x \<in> set cls" by auto
  have "set row \<inter> set (concat cells) = {}"
  proof (rule ccontr)
    assume "set row \<inter> set (concat cells) \<noteq> {}"
    then obtain x where "x \<in> set row" "x \<in> set (concat cells)" by blast
    with a(2) b have "cl \<in> set cls" by auto
    with Cons.prems show False by simp
  qed
  moreover have "distinct (concat cells)" using Cons.IH Cons.prems by simp
  ultimately show ?case using a(1) by simp
qed

lemma rows_valid:
  "list_all2 (row_of pool k) cls cells \<Longrightarrow> set cls \<subseteq> fst ` set pool \<Longrightarrow>
   list_all (\<lambda>x. snd x < length (the (map_of pool (fst x))) \<and> fst x \<in> fst ` set pool) (concat cells)"
  by (induction rule: list_all2_induct) (auto simp: row_of_def list_all_iff)

section \<open>Properties of the label noise injector\<close>

lemma nested_nth:
  "i < length z \<Longrightarrow>
   z[c1 := r1, c2 := r2] ! i = (if i = c2 then r2 else if i = c1 then r1 else z ! i)"
  by (simp add: nth_list_update)

lemma exchange_lengths: "map length (exchange c1 p1 c2 p2 z) = map length z"
proof (rule nth_equalityI)
  show "length (map length (exchange c1 p1 c2 p2 z)) = length (map length z)"
    by (simp add: exchange_def)
next
  fix i assume "i < length (map length (exchange c1 p1 c2 p2 z))"
  then have i: "i < length z" by (simp add: exchange_def)
  then show "map length (exchange c1 p1 c2 p2 z) ! i = map length z ! i"
    by (simp add: exchange_def nested_nth)
qed

lemma exchange_drop:
  assumes "p1 < shot" "p2 < shot"
  shows "map (drop shot) (exchange c1 p1 c2 p2 z) = map (drop shot) z"
proof (rule nth_equalityI)
  show "length (map (drop shot) (exchange c1 p1 c2 p2 z)) = length (map (drop shot) z)"
    by (simp add: exchange_def)
next
  fix i assume "i < length (map (drop shot) (exchange c1 p1 c2 p2 z))"
  then have i: "i < length z" by (simp add: exchange_def)
  then show "map (drop shot) (exchange c1 p1 c2 p2 z) ! i = map (drop shot) z ! i"
    using assms by (simp add: exchange_def nested_nth)
qed

lemma exchange_map:
  assumes "c1 < length z" "c2 < length z" "p1 < length (z ! c1)" "p2 < length (z ! c2)"
  shows "exchange c1 p1 c2 p2 (map (map f) z) = map (map f) (exchange c1 p1 c2 p2 z)"
  using assms by (simp add: exchange_def map_update)

lemma sum_list_update_add:
  fixes xs :: "'m::comm_monoid_add list"
  shows "i < length xs \<Longrightarrow> sum_list (xs[i := v]) + xs ! i = sum_list xs + v"
proof (induction xs arbitrary: i)
  case Nil
  then show ?case by simp
next
  case (Cons x xs)
  show ?case
  proof (cases i)
    case 0
    then show ?thesis by (simp add: add.assoc add.commute add.left_commute)
  next
    case (Suc j)
    with Cons.prems have "j < length xs" by simp
    from Cons.IH [OF this] have "sum_list (xs[j := v]) + xs ! j = sum_list xs + v" .
    then have "x + (sum_list (xs[j := v]) + xs ! j) = x + (sum_list xs + v)" by simp
    with Suc show ?thesis by (simp add: add.assoc)
  qed
qed

lemma mset_update_add:
  "p < length xs \<Longrightarrow> mset (xs[p := v]) + {#xs ! p#} = mset xs + {#v#}"
  by (simp add: mset_update)

lemma exchange_cancel:
  fixes S :: "'a multiset"
  assumes "S' + M2 = T + B'" "T + M1 = S + A'" "A' + a = M1 + b" "B' + b = M2 + a"
  shows "S' = S"
proof -
  have "S' + (M2 + M1 + a + b) = (S' + M2) + M1 + a + b" by (simp add: add.assoc)
  also have "\<dots> = (T + M1) + (B' + b) + a" unfolding assms(1) by (simp add: ac_simps)
  also have "\<dots> = S + (A' + a) + M2 + a" unfolding assms(2,4) by (simp add: ac_simps)
  also have "\<dots> = S + (M2 + M1 + a + b)" unfolding assms(3) by (simp add: ac_simps)
  finally show ?thesis by simp
qed

lemma exchange_mset:
  assumes "c1 \<noteq> c2" "c1 < length z" "c2 < length z" "p1 < length (z ! c1)" "p2 < length (z ! c2)"
  shows "mset (concat (exchange c1 p1 c2 p2 z)) = mset (concat z)"
proof -
  define a where "a = z ! c1 ! p1"
  define b where "b = z ! c2 ! p2"
  define A where "A = mset ((z ! c1)[p1 := b])"
  define B where "B = mset ((z ! c2)[p2 := a])"
  define M where "M = map mset z"
  have lM: "c1 < length M" "c2 < length M" using assms(2,3) by (simp_all add: M_def)
  have nM: "M ! c1 = mset (z ! c1)" "M ! c2 = mset (z ! c2)"
    using assms(2,3) by (simp_all add: M_def)
  have e: "map mset (exchange c1 p1 c2 p2 z) = M[c1 := A, c2 := B]"
    by (simp add: exchange_def map_update M_def A_def B_def a_def b_def)
  have "c2 < length (M[c1 := A])" using lM by simp
  from sum_list_update_add [OF this, of B]
  have s1: "sum_list (M[c1 := A, c2 := B]) + mset (z ! c2) = sum_list (M[c1 := A]) + B"
    using assms(1) nM by simp
  from sum_list_update_add [OF lM(1), of A]
  have s2: "sum_list (M[c1 := A]) + mset (z ! c1) = sum_list M + A"
    using nM by simp
  have x: "A + {#a#} = mset (z ! c1) + {#b#}"
    using mset_update_add [OF assms(4), of b] by (simp add: A_def a_def)
  have y: "B + {#b#} = mset (z ! c2) + {#a#}"
    using mset_update_add [OF assms(5), of a] by (simp add: B_def b_def)
  have "sum_list (M[c1 := A, c2 := B]) = sum_list M"
    by (rule exchange_cancel [OF s1 s2 x y])
  then show ?thesis by (simp add: mset_concat e M_def)
qed

lemma choice_Inr: "choice a sz g = Inr (sel, g') \<Longrightarrow> sz \<le> length a"
  by (auto simp: choice_def split: if_splits)

lemma choice_two:
  assumes "choice [0..<n] 2 g = Inr (sel, g')"
  shows "sel ! 0 < n \<and> sel ! 1 < n \<and> sel ! 0 \<noteq> sel ! 1"
proof -
  from choice_Inr [OF assms] have "2 \<le> length [0..<n]" .
  from choice_ok [OF this, of g] assms
  have p: "length sel = 2" "set sel \<subseteq> set [0..<n]" "distinct sel" by auto
  from p(1) have m: "sel ! 0 \<in> set sel" "sel ! 1 \<in> set sel" by simp_all
  from p(1,3) have "sel ! 0 \<noteq> sel ! 1" by (simp add: nth_eq_iff_index_eq)
  with m p(2) show ?thesis by auto
qed

lemma random_swap_Suc:
  assumes "choice [0..<length z] 2 g = Inr (sel, g1)" "0 < shot"
    "random_interval (shot - 1) g1 = (p1, g2)" "random_interval (shot - 1) g2 = (p2, g3)"
  shows "random_swap_numpy z (Suc n) shot g =
           (if length (z ! (sel ! 0)) \<le> p1 \<or> length (z ! (sel ! 1)) \<le> p2
            then Inl (IndexError ''index is out of bounds for axis 1'')
            else random_swap_numpy (exchange (sel ! 0) p1 (sel ! 1) p2 z) n shot g3)"
  using assms by (simp add: Let_def)

lemma random_swap_Suc_Inr:
  assumes "random_swap_numpy z (Suc n) shot g = Inr r"
  shows "\<exists>sel g1. choice [0..<length z] 2 g = Inr (sel, g1) \<and> 0 < shot"
proof (cases "choice [0..<length z] 2 g")
  case (Inl e)
  with assms show ?thesis by simp
next
  case (Inr x)
  obtain sel g1 where x: "x = (sel, g1)" by (cases x)
  show ?thesis
  proof (cases "shot = 0")
    case True
    with assms Inr x show ?thesis by simp
  next
    case False
    with Inr x show ?thesis by simp
  qed
qed

lemma list_all_lengths:
  "map length z' = map length z \<Longrightarrow> list_all (\<lambda>row. shot \<le> length row) z \<Longrightarrow>
   list_all (\<lambda>row. shot \<le> length row) z'"
proof -
  assume e: "map length z' = map length z" and a: "list_all (\<lambda>row. shot \<le> length row) z"
  from a have "list_all (\<lambda>n. shot \<le> n) (map length z)" by (simp add: list.pred_map comp_def)
  with e have "list_all (\<lambda>n. shot \<le> n) (map length z')" by simp
  then show ?thesis by (simp add: list.pred_map comp_def)
qed

lemma random_swap_props:
  "random_swap_numpy z n shot g = Inr (z', g') \<Longrightarrow>
   map length z' = map length z \<and> map (drop shot) z' = map (drop shot) z
   \<and> mset (concat z') = mset (concat z)"
proof (induction n arbitrary: z g)
  case 0
  then show ?case by simp
next
  case (Suc n)
  from random_swap_Suc_Inr [OF Suc.prems] obtain sel g1 where
    c: "choice [0..<length z] 2 g = Inr (sel, g1)" and sp: "0 < shot" by blast
  obtain p1 g2 where r1: "random_interval (shot - 1) g1 = (p1, g2)"
    by (cases "random_interval (shot - 1) g1")
  obtain p2 g3 where r2: "random_interval (shot - 1) g2 = (p2, g3)"
    by (cases "random_interval (shot - 1) g2")
  from random_interval_le [OF r1] random_interval_le [OF r2] sp
  have ps: "p1 < shot" "p2 < shot" by simp_all
  from choice_two [OF c]
  have cs: "sel ! 0 < length z" "sel ! 1 < length z" "sel ! 0 \<noteq> sel ! 1" by simp_all
  note u = random_swap_Suc [OF c sp r1 r2, of n]
  have nb: "\<not> (length (z ! (sel ! 0)) \<le> p1 \<or> length (z ! (sel ! 1)) \<le> p2)"
  proof
    assume "length (z ! (sel ! 0)) \<le> p1 \<or> length (z ! (sel ! 1)) \<le> p2"
    with u Suc.prems show False by simp
  qed
  then have b: "p1 < length (z ! (sel ! 0))" "p2 < length (z ! (sel ! 1))" by simp_all
  from u nb Suc.prems
  have rec: "random_swap_numpy (exchange (sel ! 0) p1 (sel ! 1) p2 z) n shot g3 = Inr (z', g')"
    by simp
  from Suc.IH [OF rec]
  have ih: "map length z' = map length (exchange (sel ! 0) p1 (sel ! 1) p2 z)"
    "map (drop shot) z' = map (drop shot) (exchange (sel ! 0) p1 (sel ! 1) p2 z)"
    "mset (concat z') = mset (concat (exchange (sel ! 0) p1 (sel ! 1) p2 z))" by simp_all
  show ?case
    unfolding ih exchange_lengths exchange_drop [OF ps] exchange_mset [OF cs(3,1,2) b]
    by simp
qed

lemma random_swap_total:
  assumes "n = 0 \<or> (2 \<le> length z \<and> 0 < shot \<and> list_all (\<lambda>row. shot \<le> length row) z)"
  shows "\<exists>z' g'. random_swap_numpy z n shot g = Inr (z', g')"
  using assms
proof (induction n arbitrary: z g)
  case 0
  then show ?case by simp
next
  case (Suc n)
  then have h: "2 \<le> length z" "0 < shot" "list_all (\<lambda>row. shot \<le> length row) z" by simp_all
  from h(1) have "2 \<le> length [0..<length z]" by simp
  from choice_ok [OF this, of g] obtain sel g1 where
    c: "choice [0..<length z] 2 g = Inr (sel, g1)" by blast
  obtain p1 g2 where r1: "random_interval (shot - 1) g1 = (p1, g2)"
    by (cases "random_interval (shot - 1) g1")
  obtain p2 g3 where r2: "random_interval (shot - 1) g2 = (p2, g3)"
    by (cases "random_interval (shot - 1) g2")
  from random_interval_le [OF r1] random_interval_le [OF r2] h(2)
  have ps: "p1 < shot" "p2 < shot" by simp_all
  from choice_two [OF c] have cs: "sel ! 0 < length z" "sel ! 1 < length z" by simp_all
  from h(3) cs have "shot \<le> length (z ! (sel ! 0))" "shot \<le> length (z ! (sel ! 1))"
    by (simp_all add: list_all_length)
  with ps have b: "p1 < length (z ! (sel ! 0))" "p2 < length (z ! (sel ! 1))" by simp_all
  define z1 where "z1 = exchange (sel ! 0) p1 (sel ! 1) p2 z"
  have ml: "map length z1 = map length z" unfolding z1_def by (rule exchange_lengths)
  have l1: "length z1 = length z" unfolding z1_def by (simp add: exchange_def)
  have l2: "list_all (\<lambda>row. shot \<le> length row) z1" by (rule list_all_lengths [OF ml h(3)])
  from h(1,2) l1 l2
  have "n = 0 \<or> (2 \<le> length z1 \<and> 0 < shot \<and> list_all (\<lambda>row. shot \<le> length row) z1)"
    by simp
  from Suc.IH [OF this, of g3] obtain z' g' where
    "random_swap_numpy z1 n shot g3 = Inr (z', g')" by blast
  with random_swap_Suc [OF c h(2) r1 r2, of n] b show ?case by (simp add: z1_def)
qed

lemma random_swap_map:
  "random_swap_numpy (map (map f) z) n shot g =
     (case random_swap_numpy z n shot g of
        Inl e \<Rightarrow> Inl e
      | Inr (z', g') \<Rightarrow> Inr (map (map f) z', g'))"
proof (induction n arbitrary: z g)
  case 0
  then show ?case by simp
next
  case (Suc n)
  show ?case
  proof (cases "choice [0..<length z] 2 g")
    case (Inl e)
    then show ?thesis by simp
  next
    case (Inr r)
    obtain sel g1 where r: "r = (sel, g1)" by (cases r)
    with Inr have c: "choice [0..<length z] 2 g = Inr (sel, g1)" by simp
    then have c': "choice [0..<length (map (map f) z)] 2 g = Inr (sel, g1)" by simp
    show ?thesis
    proof (cases "shot = 0")
      case True
      with c show ?thesis by simp
    next
      case False
      then have sp: "0 < shot" by simp
      obtain p1 g2 where r1: "random_interval (shot - 1) g1 = (p1, g2)"
        by (cases "random_interval (shot - 1) g1")
      obtain p2 g3 where r2: "random_interval (shot - 1) g2 = (p2, g3)"
        by (cases "random_interval (shot - 1) g2")
      from choice_two [OF c] have cs: "sel ! 0 < length z" "sel ! 1 < length z" by simp_all
      note u = random_swap_Suc [OF c sp r1 r2, of n]
      note u' = random_swap_Suc [OF c' sp r1 r2, of n]
      have ln: "length (map (map f) z ! (sel ! 0)) = length (z ! (sel ! 0))"
        "length (map (map f) z ! (sel ! 1)) = length (z ! (sel ! 1))"
        using cs by simp_all
      show ?thesis
      proof (cases "length (z ! (sel ! 0)) \<le> p1 \<or> length (z ! (sel ! 1)) \<le> p2")
        case True
        with u u' ln show ?thesis by simp
      next
        case nb: False
        then have b: "p1 < length (z ! (sel ! 0))" "p2 < length (z ! (sel ! 1))" by simp_all
        have "random_swap_numpy (map (map f) z) (Suc n) shot g
                = random_swap_numpy (exchange (sel ! 0) p1 (sel ! 1) p2 (map (map f) z)) n shot g3"
          using u' nb ln by simp
        also have "\<dots> = random_swap_numpy (map (map f) (exchange (sel ! 0) p1 (sel ! 1) p2 z)) n shot g3"
          by (simp only: exchange_map [OF cs b])
        also have "\<dots> = (case random_swap_numpy (exchange (sel ! 0) p1 (sel ! 1) p2 z) n shot g3 of
                             Inl e \<Rightarrow> Inl e
                           | Inr (z', g') \<Rightarrow> Inr (map (map f) z', g'))"
          by (rule Suc.IH)
        also have "random_swap_numpy (exchange (sel ! 0) p1 (sel ! 1) p2 z) n shot g3
                     = random_swap_numpy z (Suc n) shot g"
          using u nb by simp
        finally show ?thesis .
      qed
    qed
  qed
qed

section \<open>Properties of the run\<close>

lemma define_model_unknown:
  assumes "method_name cfg \<notin> set [''baseline'', ''baseline++'', ''protonet'', ''matchingnet'',
             ''relationnet'', ''relationnet_softmax'', ''maml'', ''maml_approx'']"
  shows "define_model cfg env = (Inl (ValueError ''Unknown method''), False)"
proof -
  from assms have n: "method_name cfg \<noteq> ''baseline''" "method_name cfg \<noteq> ''baseline++''"
    "method_name cfg \<noteq> ''protonet''" "method_name cfg \<noteq> ''matchingnet''"
    "method_name cfg \<noteq> ''relationnet''" "method_name cfg \<noteq> ''relationnet_softmax''"
    "method_name cfg \<noteq> ''maml''" "method_name cfg \<noteq> ''maml_approx''"
    by auto
  show ?thesis unfolding define_model_def using n by simp
qed

lemma load_model_baseline:
  assumes "method_name cfg \<in> set [''baseline'', ''baseline++'']"
  shows "load_model cfg env ms = load_model cfg env ms'"
  using assms unfolding load_model_def by (simp split: sum.splits prod.splits)

lemma apply_step_unfold:
  assumes "load_model cfg env ms = (Inr model, flag)"
  shows "apply_step cfg env ms fl st =
           (case run_statistics cfg env model fl (generator st) of
              Inl e \<Rightarrow> (Inl e, st\<lparr>backbone_maml := backbone_maml st \<or> flag\<rparr>)
            | Inr ((acc_mean, acc_std), g') \<Rightarrow>
                (Inr acc_mean,
                 st\<lparr>backbone_maml := backbone_maml st \<or> flag, generator := g',
                    results_txt := results_txt st @
                      [\<lparr> exp_setting = make_exp_setting cfg, retrieved_epoch = epoch ms,
                         acc_n_iter = n_iter cfg, acc_mean_written = acc_mean,
                         acc_interval_written = confidence_interval cfg acc_std \<rparr>]\<rparr>))"
  using assms by (simp add: apply_step_def Let_def split: sum.splits prod.splits)

lemma apply_step_load_error:
  assumes "load_model cfg env ms = (Inl e, flag)"
  shows "apply_step cfg env ms fl st = (Inl e, st\<lparr>backbone_maml := backbone_maml st \<or> flag\<rparr>)"
  using assms by (simp add: apply_step_def Let_def)


lemma apply_step_Inr:
  assumes "apply_step cfg env ms fl st = (Inr m, st')"
  shows "\<exists>model flag sd g'. load_model cfg env ms = (Inr model, flag)
           \<and> run_statistics cfg env model fl (generator st) = Inr ((m, sd), g')
           \<and> results_txt st' = results_txt st @
               [\<lparr> exp_setting = make_exp_setting cfg, retrieved_epoch = epoch ms,
                  acc_n_iter = n_iter cfg, acc_mean_written = m,
                  acc_interval_written = confidence_interval cfg sd \<rparr>]"
proof -
  obtain loaded flag where lm: "load_model cfg env ms = (loaded, flag)"
    by (cases "load_model cfg env ms")
  show ?thesis
  proof (cases loaded)
    case (Inl x)
    with lm assms apply_step_load_error [of cfg env ms x flag fl st] show ?thesis by auto
  next
    case (Inr model)
    with lm have l: "load_model cfg env ms = (Inr model, flag)" by simp
    note u = apply_step_unfold [OF l, of fl st]
    show ?thesis
    proof (cases "run_statistics cfg env model fl (generator st)")
      case (Inl x)
      with u assms show ?thesis by auto
    next
      case rs: (Inr q)
      obtain m' sd g' where q: "q = ((m', sd), g')" by (cases q) auto
      from u rs q assms have "m' = m" and
        "st' = st\<lparr>backbone_maml := backbone_maml st \<or> flag, generator := g',
                  results_txt := results_txt st @
                    [\<lparr> exp_setting = make_exp_setting cfg, retrieved_epoch = epoch ms,
                       acc_n_iter = n_iter cfg, acc_mean_written = m',
                       acc_interval_written = confidence_interval cfg sd \<rparr>]\<rparr>"
        by auto
      with l rs q show ?thesis by simp
    qed
  qed
qed

text \<open>
  C8: for a method name outside the eight names \<open>_load_model\<close> tests for, \<open>_load_model\<close>
  raises \<open>ValueError('Unknown method')\<close> (the spec's UnknownMethodError), and so does
  the run, whatever the features and labels are: it stops in the set-up of the model, the
  first step of \<open>apply\<close>, before the feature pool is built and before any episode, and
  leaves the state as it found it.
\<close>

theorem unknown_method_fails_first:
  assumes "method_name cfg \<notin> set [''baseline'', ''baseline++'', ''protonet'', ''matchingnet'',
             ''relationnet'', ''relationnet_softmax'', ''maml'', ''maml_approx'']"
  shows "load_model cfg env ms = (Inl (ValueError ''Unknown method''), False)
         \<and> apply_step cfg env ms features_and_labels st = (Inl (ValueError ''Unknown method''), st)"
proof -
  have l: "load_model cfg env ms = (Inl (ValueError ''Unknown method''), False)"
    unfolding load_model_def define_model_unknown [OF assms] by simp
  from apply_step_load_error [OF l, of features_and_labels st] l show ?thesis by simp
qed

theorem unknown_method_fails_first_witness:
  "apply_step (example_config\<lparr>method_name := ''svm''\<rparr>) stub_collaborators
     \<lparr>state = 0, epoch = 7\<rparr> (Some ([[0, 0]], [3])) example_state
   = (Inl (ValueError ''Unknown method''), example_state)"
  using unknown_method_fails_first [of "example_config\<lparr>method_name := ''svm''\<rparr>"
      stub_collaborators "\<lparr>state = 0, epoch = 7\<rparr>" "Some ([[0, 0]], [3])" example_state]
  by simp

text \<open>
  C10: for the methods \<open>baseline\<close> and \<open>baseline++\<close> the loaded model does not depend on
  \<open>model_state['state']\<close>: replacing the trained parameter set by any other one gives the
  same model, and the same run, whose log line takes only \<open>model_state['epoch']\<close>.
\<close>

theorem baseline_ignores_trained_state:
  assumes "method_name cfg \<in> set [''baseline'', ''baseline++'']"
  shows "load_model cfg env (ms\<lparr>state := other\<rparr>) = load_model cfg env ms
         \<and> apply_step cfg env (ms\<lparr>state := other\<rparr>) features_and_labels st
             = apply_step cfg env ms features_and_labels st"
proof -
  have l: "load_model cfg env (ms\<lparr>state := other\<rparr>) = load_model cfg env ms"
    by (rule load_model_baseline [OF assms])
  have e: "epoch (ms\<lparr>state := other\<rparr>) = epoch ms" by simp
  show ?thesis unfolding apply_step_def l e by simp
qed

theorem baseline_ignores_trained_state_witness:
  "load_model (example_config\<lparr>method_name := ''baseline''\<rparr>) stub_collaborators
     \<lparr>state = 1, epoch = 7\<rparr>
   = load_model (example_config\<lparr>method_name := ''baseline''\<rparr>) stub_collaborators
     \<lparr>state = 2, epoch = 7\<rparr>"
  using baseline_ignores_trained_state [where cfg = "example_config\<lparr>method_name := ''baseline''\<rparr>"
      and env = stub_collaborators and ms = "\<lparr>state = 2, epoch = 7\<rparr>" and other = 1]
  by simp


lemma episode_loop_length:
  "episode_loop cfg env pool k model g acc = Inr (acc_all, g') \<Longrightarrow>
   length acc_all = length acc + k"
proof (induction k arbitrary: model g acc)
  case 0
  then show ?case by simp
next
  case (Suc k)
  show ?case
  proof (cases "feature_evaluation cfg env pool model g")
    case (Inl e)
    with Suc.prems show ?thesis by simp
  next
    case (Inr r)
    obtain a model' g1 where r: "r = (a, model', g1)" by (cases r)
    with Inr Suc.prems have "episode_loop cfg env pool k model' g1 (acc @ [a]) = Inr (acc_all, g')"
      by simp
    from Suc.IH [OF this] show ?thesis by simp
  qed
qed

lemma those_map_Some: "those (map Some xs) = Some xs"
  by (induction xs) simp_all

lemma run_statistics_Inr:
  assumes "method_name cfg \<notin> set [''maml'', ''maml_approx'']"
    and "run_statistics cfg env model features_and_labels g = Inr ((m, sd), g')"
  shows "\<exists>fl pool acc_all. features_and_labels = Some fl \<and> process_features fl = Inr pool
           \<and> episode_loop cfg env pool (n_iter cfg) model g [] = Inr (acc_all, g')
           \<and> m = np_mean_all acc_all \<and> sd = np_std_all acc_all"
proof (cases features_and_labels)
  case None
  with assms show ?thesis by (simp add: run_statistics_def)
next
  case (Some fl)
  show ?thesis
  proof (cases "process_features fl")
    case (Inl e)
    with assms Some show ?thesis by (simp add: run_statistics_def)
  next
    case pf: (Inr pool)
    show ?thesis
    proof (cases "episode_loop cfg env pool (n_iter cfg) model g []")
      case (Inl e)
      with assms Some pf show ?thesis by (simp add: run_statistics_def)
    next
      case (Inr r)
      obtain acc_all g1 where r: "r = (acc_all, g1)" by (cases r)
      with assms Some pf Inr show ?thesis by (auto simp add: run_statistics_def)
    qed
  qed
qed

text \<open>
  C4: for a positive number of episodes the confidence interval of a deviation \<open>s\<close> is
  \<open>1.96 * s / sqrt n_iter\<close>; with more episodes and the same non-negative deviation it is
  not larger; the deviation of the accuracies is the population standard deviation (the
  mean square distance to the mean, divided by the number of values); and a run on features
  that returns has written the interval of the deviation of the very accuracies its episode
  loop returned, \<open>n_iter\<close> of them, whose mean is the result of the run.
\<close>

theorem confidence_half_width:
  assumes "0 < n_iter cfg" and "n_iter cfg \<le> n_iter cfg'" and "0 \<le> s"
  shows "confidence_interval cfg (Some s) = Some (1.96 * s / sqrt (real (n_iter cfg)))
       \<and> (\<exists>h'. confidence_interval cfg' (Some s) = Some h'
                \<and> h' \<le> 1.96 * s / sqrt (real (n_iter cfg)))
       \<and> (\<forall>accs. accs \<noteq> [] \<longrightarrow>
            np_std_all (map Some accs) =
              Some (sqrt (sum_list (map (\<lambda>x. (x - sum_list accs / real (length accs))\<^sup>2) accs)
                          / real (length accs))))
       \<and> (method_name cfg \<notin> set [''maml'', ''maml_approx'']
          \<and> apply_step cfg env ms features_and_labels st = (Inr m, st')
          \<longrightarrow> (\<exists>model flag fl pool acc_all g'.
                   load_model cfg env ms = (Inr model, flag)
                 \<and> features_and_labels = Some fl \<and> process_features fl = Inr pool
                 \<and> episode_loop cfg env pool (n_iter cfg) model (generator st) []
                       = Inr (acc_all, g')
                 \<and> length acc_all = n_iter cfg \<and> m = np_mean_all acc_all
                 \<and> results_txt st' = results_txt st @
                     [\<lparr> exp_setting = make_exp_setting cfg, retrieved_epoch = epoch ms,
                        acc_n_iter = n_iter cfg, acc_mean_written = m,
                        acc_interval_written =
                          confidence_interval cfg (np_std_all acc_all) \<rparr>]))"
proof (intro conjI allI impI)
  show "confidence_interval cfg (Some s) = Some (1.96 * s / sqrt (real (n_iter cfg)))"
    using assms(1) by (simp add: confidence_interval_def)
next
  from assms(1,2) have p: "0 < n_iter cfg'" by simp
  have ab: "sqrt (real (n_iter cfg)) \<le> sqrt (real (n_iter cfg'))"
    using assms(2) by simp
  have apos: "0 < sqrt (real (n_iter cfg))" using assms(1) by simp
  have c0: "0 \<le> 1.96 * s" using assms(3) by simp
  have "1.96 * s / sqrt (real (n_iter cfg')) \<le> 1.96 * s / sqrt (real (n_iter cfg))"
    by (rule frac_le [OF c0 order_refl apos ab])
  then show "\<exists>h'. confidence_interval cfg' (Some s) = Some h'
                \<and> h' \<le> 1.96 * s / sqrt (real (n_iter cfg))"
    using p by (simp add: confidence_interval_def)
next
  fix accs :: "real list" assume "accs \<noteq> []"
  then show "np_std_all (map Some accs) =
              Some (sqrt (sum_list (map (\<lambda>x. (x - sum_list accs / real (length accs))\<^sup>2) accs)
                          / real (length accs)))"
    by (simp add: np_std_all_def those_map_Some np_std_def np_mean_def)
next
  assume a: "method_name cfg \<notin> set [''maml'', ''maml_approx'']
          \<and> apply_step cfg env ms features_and_labels st = (Inr m, st')"
  from apply_step_Inr [of cfg env ms features_and_labels st m st'] a
  obtain model flag sd g' where
    l: "load_model cfg env ms = (Inr model, flag)"
    and rs: "run_statistics cfg env model features_and_labels (generator st) = Inr ((m, sd), g')"
    and w: "results_txt st' = results_txt st @
               [\<lparr> exp_setting = make_exp_setting cfg, retrieved_epoch = epoch ms,
                  acc_n_iter = n_iter cfg, acc_mean_written = m,
                  acc_interval_written = confidence_interval cfg sd \<rparr>]"
    by blast
  from a have nm: "method_name cfg \<notin> set [''maml'', ''maml_approx'']" by simp
  from run_statistics_Inr [OF nm rs] obtain fl pool acc_all where
    fp: "features_and_labels = Some fl" "process_features fl = Inr pool"
    and el: "episode_loop cfg env pool (n_iter cfg) model (generator st) [] = Inr (acc_all, g')"
    and ms: "m = np_mean_all acc_all" "sd = np_std_all acc_all" by blast
  from episode_loop_length [OF el] have "length acc_all = n_iter cfg" by simp
  with ms w l fp el show "\<exists>model flag fl pool acc_all g'.
                   load_model cfg env ms = (Inr model, flag)
                 \<and> features_and_labels = Some fl \<and> process_features fl = Inr pool
                 \<and> episode_loop cfg env pool (n_iter cfg) model (generator st) []
                       = Inr (acc_all, g')
                 \<and> length acc_all = n_iter cfg \<and> m = np_mean_all acc_all
                 \<and> results_txt st' = results_txt st @
                     [\<lparr> exp_setting = make_exp_setting cfg, retrieved_epoch = epoch ms,
                        acc_n_iter = n_iter cfg, acc_mean_written = m,
                        acc_interval_written =
                          confidence_interval cfg (np_std_all acc_all) \<rparr>]"
    by blast
qed



lemma feature_evaluation_sampling_error:
  "set_classification_task cfg pool g = Inl e \<Longrightarrow> feature_evaluation cfg env pool model g = Inl e"
  by (simp add: feature_evaluation_def)

text \<open>
  C7: on a pool with fewer classes than \<open>test_n_way\<close> the choice of the classes raises
  ValueError (numpy's exception for a sample larger than the population, the spec's
  InsufficientClassesError), whatever the random draws; the exception is the result of the
  episode, of the episode loop and of the run, which leaves \<open>results.txt\<close> as it was.
\<close>

theorem too_few_classes:
  assumes "length pool < test_n_way cfg"
  shows "\<exists>m. set_classification_task cfg pool g = Inl (ValueError m)
           \<and> feature_evaluation cfg env pool model g = Inl (ValueError m)
           \<and> (\<forall>k acc_all. episode_loop cfg env pool (Suc k) model g acc_all = Inl (ValueError m))
           \<and> (method_name cfg \<notin> set [''maml'', ''maml_approx'']
              \<and> load_model cfg env ms = (Inr model, flag)
              \<and> process_features fl = Inr pool \<and> 0 < n_iter cfg \<and> generator st = g
              \<longrightarrow> fst (apply_step cfg env ms (Some fl) st) = Inl (ValueError m)
                \<and> results_txt (snd (apply_step cfg env ms (Some fl) st)) = results_txt st)"
proof -
  from assms have "length (map fst pool) < test_n_way cfg" by simp
  from choice_too_few [OF this, of g] obtain m where
    c: "choice (map fst pool) (test_n_way cfg) g = Inl (ValueError m)" by blast
  then have s: "set_classification_task cfg pool g = Inl (ValueError m)"
    by (simp add: set_classification_task_def)
  then have f: "feature_evaluation cfg env pool model g = Inl (ValueError m)"
    by (rule feature_evaluation_sampling_error)
  then have l: "\<forall>k acc_all. episode_loop cfg env pool (Suc k) model g acc_all = Inl (ValueError m)"
    by simp
  have "fst (apply_step cfg env ms (Some fl) st) = Inl (ValueError m)
        \<and> results_txt (snd (apply_step cfg env ms (Some fl) st)) = results_txt st"
    if a: "method_name cfg \<notin> set [''maml'', ''maml_approx'']
              \<and> load_model cfg env ms = (Inr model, flag)
              \<and> process_features fl = Inr pool \<and> 0 < n_iter cfg \<and> generator st = g"
  proof -
    from a obtain k where k: "n_iter cfg = Suc k" by (cases "n_iter cfg") auto
    with l have "episode_loop cfg env pool (n_iter cfg) model g [] = Inl (ValueError m)" by simp
    with a have rs: "run_statistics cfg env model (Some fl) (generator st) = Inl (ValueError m)"
      by (simp add: run_statistics_def)
    from a have lm: "load_model cfg env ms = (Inr model, flag)" by simp
    from apply_step_unfold [OF lm, of "Some fl" st] rs show ?thesis by simp
  qed
  with s f l show ?thesis by blast
qed

theorem too_few_classes_witness:
  "\<exists>m. set_classification_task (example_config\<lparr>test_n_way := 5\<rparr>)
          [(3, [[1, 0]]), (4, [[0, 1::real]])] (\<lambda>i. i) = Inl (ValueError m)"
  using too_few_classes [where cfg = "example_config\<lparr>test_n_way := 5\<rparr>"
      and pool = "[(3, [[1, 0]]), (4, [[0, 1::real]])]" and g = "\<lambda>i. i"]
  by (simp add: example_config_def) blast

section \<open>The frame of the injector and the sampled episode\<close>

lemma all_same_iff:
  "(case cs of [] \<Rightarrow> True | c # r \<Rightarrow> list_all (\<lambda>c'. f c' = f c) r)
     \<longleftrightarrow> (\<forall>x \<in> set cs. \<forall>y \<in> set cs. f x = f y)"
  by (cases cs) (auto simp: list_all_iff)

lemma homogeneous_iff:
  "homogeneous z \<longleftrightarrow> (\<forall>x \<in> set (concat z). \<forall>y \<in> set (concat z). cell_shape x = cell_shape y)"
  unfolding homogeneous_def by (rule all_same_iff)

lemma shape_preserved:
  assumes "homogeneous z" "map length z' = map length z" "set (concat z') = set (concat z)"
  shows "shape z' = shape z"
proof (cases z)
  case Nil
  with assms(2) show ?thesis by simp
next
  case (Cons row rs)
  with assms(2) obtain row' rs' where z': "z' = row' # rs'" by (cases z') auto
  from assms(2) Cons z' have l: "length row' = length row" "length rs' = length rs"
    by (simp_all, metis length_map)
  show ?thesis
  proof (cases row)
    case Nil
    with l Cons z' show ?thesis by (simp add: shape_def)
  next
    case c: (Cons c cs)
    with l obtain c' cs' where c': "row' = c' # cs'" by (cases row') auto
    have "c \<in> set (concat z)" using Cons c by simp
    moreover have "c' \<in> set (concat z)" using assms(3) z' c' by auto
    ultimately have "cell_shape c' = cell_shape c"
      using assms(1) unfolding homogeneous_iff by blast
    with Cons z' c c' l show ?thesis by (simp add: shape_def)
  qed
qed

lemma drop_eq_nth:
  assumes "drop n xs = drop n ys" "n \<le> p" "p < length ys"
  shows "xs ! p = ys ! p"
proof -
  have "length (drop n xs) = length (drop n ys)" using assms(1) by simp
  with assms(2,3) have lx: "p < length xs" by simp
  have "xs ! p = drop n xs ! (p - n)" using assms(2) lx by simp
  also have "\<dots> = drop n ys ! (p - n)" by (simp only: assms(1))
  also have "\<dots> = ys ! p" using assms(2,3) by simp
  finally show ?thesis .
qed

text \<open>
  C3: whatever the episode, the number of swaps and \<open>n_shot\<close>, a result of the label noise
  injector has the rows and the row lengths of its input (and its shape, when the input is a
  numeric array), and every cell at an index of \<open>n_shot\<close> or more within its class slice
  (the query region) is the cell of the input; the injector returns at least when there is
  no swap to do, or when there are two classes and each has its \<open>n_shot\<close> support cells.
\<close>

theorem random_swap_keeps_query_region:
  fixes z :: "'a episode"
  shows "(\<forall>z' g'. random_swap_numpy z n shot g = Inr (z', g') \<longrightarrow>
            length z' = length z \<and> map length z' = map length z
          \<and> (homogeneous z \<longrightarrow> shape z' = shape z)
          \<and> map (drop shot) z' = map (drop shot) z
          \<and> (\<forall>c p. c < length z \<and> shot \<le> p \<and> p < length (z ! c) \<longrightarrow> z' ! c ! p = z ! c ! p))
       \<and> (n = 0 \<or> (2 \<le> length z \<and> 0 < shot \<and> list_all (\<lambda>row. shot \<le> length row) z)
            \<longrightarrow> (\<exists>z' g'. random_swap_numpy z n shot g = Inr (z', g')))"
proof (intro conjI allI impI)
  fix z' g' assume r: "random_swap_numpy z n shot g = Inr (z', g')"
  from random_swap_props [OF r]
  have p: "map length z' = map length z" "map (drop shot) z' = map (drop shot) z"
    "mset (concat z') = mset (concat z)" by simp_all
  from p(1) show l: "length z' = length z" by (metis length_map)
  from p(1) show "map length z' = map length z" .
  from p(2) show "map (drop shot) z' = map (drop shot) z" .
  show "shape z' = shape z" if "homogeneous z"
    using that p(1) mset_eq_setD [OF p(3)] by (rule shape_preserved)
  fix c p assume a: "c < length z \<and> shot \<le> p \<and> p < length (z ! c)"
  with l have "map (drop shot) z' ! c = map (drop shot) z ! c" using p(2) by simp
  with a l have d: "drop shot (z' ! c) = drop shot (z ! c)" by simp
  from a have "shot \<le> p" "p < length (z ! c)" by simp_all
  from drop_eq_nth [OF d this] show "z' ! c ! p = z ! c ! p" .
next
  assume "n = 0 \<or> (2 \<le> length z \<and> 0 < shot \<and> list_all (\<lambda>row. shot \<le> length row) z)"
  then show "\<exists>z' g'. random_swap_numpy z n shot g = Inr (z', g')"
    by (rule random_swap_total)
qed

theorem random_swap_keeps_query_region_witness:
  "\<exists>z' g'. random_swap_numpy [[Scalar 1, Scalar 2, Scalar 3], [Scalar 4, Scalar 5, Scalar (6::nat)]]
              3 2 (\<lambda>i. i) = Inr (z', g')
           \<and> map (drop 2) z' = [[Scalar 3], [Scalar 6]] \<and> map length z' = [3, 3]"
proof -
  let ?z = "[[Scalar 1, Scalar 2, Scalar 3], [Scalar 4, Scalar 5, Scalar (6::nat)]]"
  note t = random_swap_keeps_query_region [of ?z 3 2 "\<lambda>i. i"]
  have "\<exists>z' g'. random_swap_numpy ?z 3 2 (\<lambda>i. i) = Inr (z', g')"
    using conjunct2 [OF t] by simp
  then obtain z' g' where r: "random_swap_numpy ?z 3 2 (\<lambda>i. i) = Inr (z', g')" by blast
  with conjunct1 [OF t] have "map length z' = map length ?z" "map (drop 2) z' = map (drop 2) ?z"
    by blast+
  with r show ?thesis by simp
qed

lemma cell_shape_squeeze:
  "cell_shape (squeeze v) = (if length v = 1 then [] else [length v])"
proof (cases v)
  case Nil
  then show ?thesis by (simp add: squeeze_def)
next
  case (Cons x xs)
  then show ?thesis by (cases xs) (simp_all add: squeeze_def)
qed

lemma shape_regular:
  assumes "0 < length z" "list_all (\<lambda>row. length row = k) z" "0 < k"
    and "\<forall>c \<in> set (concat z). cell_shape c = sd"
  shows "shape z = [length z, k] @ sd"
proof -
  from assms(1) obtain row rs where z: "z = row # rs" by (cases z) auto
  with assms(2) have lr: "length row = k" by simp
  with assms(3) obtain c cs where r: "row = c # cs" by (cases row) auto
  from z r have "c \<in> set (concat z)" by simp
  with assms(4) have "cell_shape c = sd" by blast
  with z r lr show ?thesis by (simp add: shape_def)
qed

lemma pool_lookup:
  assumes "cl \<in> set (map fst pool)"
  shows "\<exists>feats. map_of pool cl = Some feats \<and> (cl, feats) \<in> set pool"
proof -
  from assms have "map_of pool cl \<noteq> None" by (simp add: map_of_eq_None_iff)
  then obtain feats where f: "map_of pool cl = Some feats" by blast
  from map_of_SomeD [OF f] f show ?thesis by blast
qed

lemma list_all_lengths_eq:
  assumes "map length z' = map length z" "list_all (\<lambda>row. length row = k) z"
  shows "list_all (\<lambda>row. length row = k) z'"
proof -
  from assms(2) have "list_all (\<lambda>n. n = k) (map length z)" by (simp add: list.pred_map comp_def)
  with assms(1) have "list_all (\<lambda>n. n = k) (map length z')" by simp
  then show ?thesis by (simp add: list.pred_map comp_def)
qed

lemma instance_shape:
  fixes pool :: "'a feature_pool"
  assumes enough: "list_all (\<lambda>(cl, feats). k \<le> length feats \<and> list_all (\<lambda>v. length v = d) feats) pool"
    and x: "fst x \<in> set (map fst pool)" "snd x < length (the (map_of pool (fst x)))"
  shows "cell_shape (instance_at pool x) = (if d = 1 then [] else [d])"
proof -
  from pool_lookup [OF x(1)] obtain feats where
    f: "map_of pool (fst x) = Some feats" "(fst x, feats) \<in> set pool" by blast
  from enough f(2) have "list_all (\<lambda>v. length v = d) feats" by (auto simp: list_all_iff)
  moreover from x(2) f(1) have "feats ! snd x \<in> set feats" by simp
  ultimately have "length (feats ! snd x) = d" by (simp add: list_all_iff)
  with f(1) show ?thesis by (simp add: instance_at_def cell_shape_squeeze)
qed

lemma sampler_decomposition:
  fixes pool :: "'a feature_pool"
  assumes enough: "list_all (\<lambda>(cl, feats). n_shot cfg + n_query cfg \<le> length feats
                                \<and> list_all (\<lambda>v. length v = d) feats) pool"
    and classes: "test_n_way cfg \<le> length pool"
  shows "\<exists>sel cells0 g2.
           set_classification_task cfg pool g =
             (case random_swap_numpy cells0 (n_swaps cfg) (n_shot cfg) g2 of
                Inl e \<Rightarrow> Inl e
              | Inr (cells, g') \<Rightarrow> Inr (map (map (instance_at pool)) cells, g'))
         \<and> list_all2 (row_of pool (n_shot cfg + n_query cfg)) sel cells0
         \<and> length sel = test_n_way cfg \<and> set sel \<subseteq> set (map fst pool)
         \<and> (distinct (map fst pool) \<longrightarrow> distinct sel)"
proof -
  let ?k = "n_shot cfg + n_query cfg"
  from classes have "test_n_way cfg \<le> length (map fst pool)" by simp
  from choice_ok [OF this, of g] obtain sel g1 where
    c: "choice (map fst pool) (test_n_way cfg) g = Inr (sel, g1)"
    and sel: "length sel = test_n_way cfg" "set sel \<subseteq> set (map fst pool)"
      "distinct (map fst pool) \<longrightarrow> distinct sel" by blast
  have "\<forall>cl \<in> set sel. \<exists>feats. map_of pool cl = Some feats \<and> ?k \<le> length feats"
  proof
    fix cl assume "cl \<in> set sel"
    with sel(2) have "cl \<in> set (map fst pool)" by blast
    from pool_lookup [OF this] obtain feats where
      f: "map_of pool cl = Some feats" "(cl, feats) \<in> set pool" by blast
    from enough f(2) have "?k \<le> length feats" by (auto simp: list_all_iff)
    with f(1) show "\<exists>feats. map_of pool cl = Some feats \<and> ?k \<le> length feats" by blast
  qed
  from class_loop_ok [OF this, of g1] obtain cells0 g2 where
    cl: "class_loop pool ?k sel g1 = Inr (map (map (instance_at pool)) cells0, g2)"
    and rows: "list_all2 (row_of pool ?k) sel cells0" by blast
  let ?z0 = "map (map (instance_at pool)) cells0"
  from sel(2) have "set sel \<subseteq> fst ` set pool" by simp
  from rows_valid [OF rows this]
  have v: "list_all (\<lambda>x. snd x < length (the (map_of pool (fst x))) \<and> fst x \<in> fst ` set pool)
             (concat cells0)" .
  have sh: "\<forall>c \<in> set (concat ?z0). cell_shape c = (if d = 1 then [] else [d])"
  proof
    fix c assume "c \<in> set (concat ?z0)"
    then obtain x where x: "x \<in> set (concat cells0)" "c = instance_at pool x"
      by (auto simp: map_concat [symmetric] simp del: map_concat)
    from v x(1) have "fst x \<in> set (map fst pool)" "snd x < length (the (map_of pool (fst x)))"
      by (auto simp add: list_all_iff)
    from instance_shape [OF enough this] x(2)
    show "cell_shape c = (if d = 1 then [] else [d])" by simp
  qed
  then have "homogeneous ?z0" unfolding homogeneous_iff by simp
  then have na: "np_array ?z0 = Inr ?z0" by (simp add: np_array_def)
  have "set_classification_task cfg pool g = random_swap_numpy ?z0 (n_swaps cfg) (n_shot cfg) g2"
    unfolding set_classification_task_def c by (simp add: cl na)
  also have "\<dots> = (case random_swap_numpy cells0 (n_swaps cfg) (n_shot cfg) g2 of
                Inl e \<Rightarrow> Inl e
              | Inr (cells, g') \<Rightarrow> Inr (map (map (instance_at pool)) cells, g'))"
    by (rule random_swap_map)
  finally show ?thesis using rows sel by blast
qed

text \<open>
  C1: every episode should have the three-axis shape
  \<open>(n_way, n_shot + n_query, feature_dim)\<close>, as the docstring of the sampler says too
  (\<open>shape(self.test_n_way, self.n_shot+self.n_query, feature_vector_dim)\<close>). On a pool of
  vectors with one component, two classes of two vectors each, and two ways, one shot, one
  query and no swap, \<open>np.squeeze\<close> turns every vector into a scalar and the episode has
  the two axes \<open>(2, 2)\<close>, where \<open>(2, 2, 1)\<close> is promised.
\<close>

theorem episode_shape_at_dimension_one:
  "map_sum id (shape \<circ> fst) (set_classification_task example_config thin_pool constant_draws)
     = Inr [2, 2]
   \<and> list_all (\<lambda>(cl, feats). list_all (\<lambda>v. length v = 1) feats) thin_pool
   \<and> [test_n_way example_config, n_shot example_config + n_query example_config, 1] = [2, 2, 1]"
  by (simp add: set_classification_task_def choice_def permutation_def random_interval_def
      swap_at_def dict_get_def squeeze_def np_array_def homogeneous_def shape_def
      example_config_def thin_pool_def constant_draws_def)

text \<open>
  What the sampler does on every pool with distinct keys, enough classes and enough vectors
  of one dimension \<open>d\<close> in each class: the cells of a returned episode are instances of
  the pool, no instance twice, from exactly \<open>test_n_way\<close> different classes,
  \<open>n_shot + n_query\<close> from each; the last axis has length \<open>d\<close> and is missing when
  \<open>d = 1\<close>. For a positive number of swaps this rests on the model of the injector.
\<close>

lemma sampled_episode_properties:
  fixes pool :: "'a feature_pool"
  assumes keys: "distinct (map fst pool)"
    and enough: "list_all (\<lambda>(cl, feats). n_shot cfg + n_query cfg \<le> length feats
                                \<and> list_all (\<lambda>v. length v = d) feats) pool"
    and way: "0 < test_n_way cfg" "test_n_way cfg \<le> length pool"
    and shot: "0 < n_shot cfg"
  shows "(\<forall>z g'. set_classification_task cfg pool g = Inr (z, g') \<longrightarrow>
            (\<exists>cells sel.
                z = map (map (instance_at pool)) cells
              \<and> shape z = [test_n_way cfg, n_shot cfg + n_query cfg]
                            @ (if d = 1 then [] else [d])
              \<and> length cells = test_n_way cfg
              \<and> list_all (\<lambda>row. length row = n_shot cfg + n_query cfg) cells
              \<and> distinct (concat cells)
              \<and> list_all (\<lambda>x. fst x \<in> set (map fst pool)
                              \<and> snd x < length (the (map_of pool (fst x)))) (concat cells)
              \<and> distinct sel \<and> length sel = test_n_way cfg \<and> set sel \<subseteq> set (map fst pool)
              \<and> mset (map fst (concat cells))
                  = mset (concat (map (replicate (n_shot cfg + n_query cfg)) sel))))
       \<and> (n_swaps cfg = 0 \<or> 2 \<le> test_n_way cfg
            \<longrightarrow> (\<exists>z g'. set_classification_task cfg pool g = Inr (z, g')))"
proof -
  let ?k = "n_shot cfg + n_query cfg"
  from sampler_decomposition [OF enough way(2), of g] keys obtain sel cells0 g2 where
    dec: "set_classification_task cfg pool g =
             (case random_swap_numpy cells0 (n_swaps cfg) (n_shot cfg) g2 of
                Inl e \<Rightarrow> Inl e
              | Inr (cells, g') \<Rightarrow> Inr (map (map (instance_at pool)) cells, g'))"
    and rows: "list_all2 (row_of pool ?k) sel cells0"
    and sel: "length sel = test_n_way cfg" "set sel \<subseteq> set (map fst pool)" "distinct sel"
    by blast
  from rows_length [OF rows] sel(1)
  have l0: "length cells0 = test_n_way cfg" "list_all (\<lambda>row. length row = ?k) cells0" by simp_all
  from sel(2) have "set sel \<subseteq> fst ` set pool" by simp
  from rows_valid [OF rows this]
  have v0: "list_all (\<lambda>x. snd x < length (the (map_of pool (fst x))) \<and> fst x \<in> fst ` set pool)
              (concat cells0)" .
  have d0: "distinct (concat cells0)" by (rule rows_distinct [OF rows sel(3)])
  have c0: "map fst (concat cells0) = concat (map (replicate ?k) sel)" by (rule rows_classes [OF rows])
  have A: "\<exists>cells sel.
                z = map (map (instance_at pool)) cells
              \<and> shape z = [test_n_way cfg, ?k] @ (if d = 1 then [] else [d])
              \<and> length cells = test_n_way cfg
              \<and> list_all (\<lambda>row. length row = ?k) cells
              \<and> distinct (concat cells)
              \<and> list_all (\<lambda>x. fst x \<in> set (map fst pool)
                              \<and> snd x < length (the (map_of pool (fst x)))) (concat cells)
              \<and> distinct sel \<and> length sel = test_n_way cfg \<and> set sel \<subseteq> set (map fst pool)
              \<and> mset (map fst (concat cells)) = mset (concat (map (replicate ?k) sel))"
    if r: "set_classification_task cfg pool g = Inr (z, g')" for z g'
  proof -
    from r dec obtain cells where
      sw: "random_swap_numpy cells0 (n_swaps cfg) (n_shot cfg) g2 = Inr (cells, g')"
      and z: "z = map (map (instance_at pool)) cells"
      by (cases "random_swap_numpy cells0 (n_swaps cfg) (n_shot cfg) g2") auto
    from random_swap_props [OF sw]
    have p: "map length cells = map length cells0" "mset (concat cells) = mset (concat cells0)"
      by simp_all
    from p(1) l0(1) have l: "length cells = test_n_way cfg" by (metis length_map)
    have lr: "list_all (\<lambda>row. length row = ?k) cells" by (rule list_all_lengths_eq [OF p(1) l0(2)])
    have dc: "distinct (concat cells)"
      using mset_eq_imp_distinct_iff [OF p(2)] d0 by simp
    have se: "set (concat cells) = set (concat cells0)" by (rule mset_eq_setD [OF p(2)])
    have vc: "list_all (\<lambda>x. fst x \<in> set (map fst pool)
                  \<and> snd x < length (the (map_of pool (fst x)))) (concat cells)"
      using v0 unfolding list_all_iff se by auto
    have mc: "mset (map fst (concat cells)) = mset (concat (map (replicate ?k) sel))"
    proof -
      have "mset (map fst (concat cells)) = image_mset fst (mset (concat cells))" by simp
      also have "\<dots> = image_mset fst (mset (concat cells0))" by (simp only: p(2))
      also have "\<dots> = mset (map fst (concat cells0))" by simp
      finally show ?thesis by (simp only: c0)
    qed
    have sh: "shape z = [test_n_way cfg, ?k] @ (if d = 1 then [] else [d])"
    proof -
      have lz: "length z = test_n_way cfg" using z l by simp
      have lzr: "list_all (\<lambda>row. length row = ?k) z"
        using lr unfolding z by (simp add: list.pred_map comp_def)
      have cs: "\<forall>c \<in> set (concat z). cell_shape c = (if d = 1 then [] else [d])"
      proof
        fix c assume "c \<in> set (concat z)"
        then obtain x where x: "x \<in> set (concat cells)" "c = instance_at pool x"
          unfolding z by (auto simp: map_concat [symmetric] simp del: map_concat)
        from vc x(1) have "fst x \<in> set (map fst pool)"
          "snd x < length (the (map_of pool (fst x)))" by (auto simp add: list_all_iff)
        from instance_shape [OF enough this] x(2)
        show "cell_shape c = (if d = 1 then [] else [d])" by simp
      qed
      have "0 < length z" using lz way(1) by simp
      moreover have "0 < ?k" using shot by simp
      ultimately have "shape z = [length z, ?k] @ (if d = 1 then [] else [d])"
        using lzr cs by (intro shape_regular)
      with lz show ?thesis by simp
    qed
    from z sh l lr dc vc sel mc show ?thesis by blast
  qed
  have B: "\<exists>z g'. set_classification_task cfg pool g = Inr (z, g')"
    if s: "n_swaps cfg = 0 \<or> 2 \<le> test_n_way cfg"
  proof -
    have "list_all (\<lambda>row. n_shot cfg \<le> length row) cells0"
      using l0(2) by (simp add: list_all_iff)
    with s l0(1) shot have "n_swaps cfg = 0 \<or> (2 \<le> length cells0 \<and> 0 < n_shot cfg
        \<and> list_all (\<lambda>row. n_shot cfg \<le> length row) cells0)" by simp
    from random_swap_total [OF this, of g2] obtain cells g' where
      "random_swap_numpy cells0 (n_swaps cfg) (n_shot cfg) g2 = Inr (cells, g')" by blast
    with dec show ?thesis by simp
  qed
  from A B show ?thesis by blast
qed

lemma example_pool_sampled:
  "\<exists>z g'. set_classification_task example_config example_pool g = Inr (z, g')"
proof -
  have h: "distinct (map fst example_pool)"
    "list_all (\<lambda>(cl, feats). n_shot example_config + n_query example_config \<le> length feats
                                \<and> list_all (\<lambda>v. length v = 2) feats) example_pool"
    "0 < test_n_way example_config"
    "test_n_way example_config \<le> length example_pool" "0 < n_shot example_config"
    by (simp_all add: example_pool_def example_config_def)
  have "n_swaps example_config = 0 \<or> 2 \<le> test_n_way example_config"
    by (simp add: example_config_def)
  with conjunct2 [OF sampled_episode_properties [OF h, of g]] show ?thesis by blast
qed

section \<open>The score of an episode\<close>

lemma np_repeat_range_length: "length (np_repeat_range way query) = way * query"
  by (induction way) (simp_all add: np_repeat_range_def)

lemma np_repeat_range_Suc:
  "np_repeat_range (Suc way) query = np_repeat_range way query @ replicate query way"
  by (simp add: np_repeat_range_def)

lemma np_repeat_range_nth:
  "i < way * query \<Longrightarrow> np_repeat_range way query ! i = i div query"
proof (induction way)
  case 0
  then show ?case by simp
next
  case (Suc way)
  show ?case
  proof (cases "i < way * query")
    case True
    with Suc.IH show ?thesis
      by (simp add: np_repeat_range_Suc nth_append np_repeat_range_length)
  next
    case False
    then have ge: "way * query \<le> i" by simp
    from Suc.prems have lt: "i < way * query + query" by (simp add: add.commute)
    from ge lt have r: "i - way * query < query" by simp
    have "i div query = way"
    proof (rule div_nat_eqI)
      show "query * way \<le> i" using ge by (simp add: mult.commute)
      show "i < query * Suc way" using Suc.prems by (simp add: mult.commute)
    qed
    with False r show ?thesis
      by (simp add: np_repeat_range_Suc nth_append np_repeat_range_length)
  qed
qed

lemma sum_list_of_bool: "sum_list (map of_bool bs) = real (length (filter id bs))"
  by (induction bs) simp_all

lemma zip_as_indices:
  "length xs = length ys \<Longrightarrow> zip xs ys = map (\<lambda>i. (xs ! i, ys ! i)) [0..<length xs]"
  by (rule nth_equalityI) simp_all

lemma hits_count:
  assumes "length pred = length y"
  shows "length (filter id (map (\<lambda>(p, t). p = t) (zip pred y)))
           = length (filter (\<lambda>i. pred ! i = y ! i) [0..<length pred])"
proof -
  have "map (\<lambda>(p, t). p = t) (zip pred y) = map (\<lambda>i. pred ! i = y ! i) [0..<length pred]"
    unfolding zip_as_indices [OF assms] by simp
  then show ?thesis by (simp add: filter_map comp_def)
qed

text \<open>
  C2: when the classifier returns one row of scores for each of the
  \<open>test_n_way * n_query\<close> query instances (and there is at least one), the score of the
  episode is 100 times the number of positions where the prediction equals the ground
  truth, divided by the number of query instances; the ground truth has one entry per
  query instance, and the entry of the \<open>q\<close>-th query instance of the \<open>c\<close>-th selected
  class is \<open>c\<close>.
\<close>

theorem feature_evaluation_score:
  assumes task: "set_classification_task cfg pool g = Inr (z, g1)"
    and fwd: "(if adaptation cfg
               then set_forward_adaptation env (model\<lparr>model_n_query := Some (n_query cfg)\<rparr>) z g1
               else set_forward env (model\<lparr>model_n_query := Some (n_query cfg)\<rparr>) z g1)
              = Inr (scores, g2)"
    and pred: "argmax_axis1 scores = Inr pred"
    and len: "length pred = test_n_way cfg * n_query cfg"
    and pos: "0 < test_n_way cfg * n_query cfg"
  shows "feature_evaluation cfg env pool model g =
           Inr (Some (real (length (filter (\<lambda>i. pred ! i = np_repeat_range (test_n_way cfg) (n_query cfg) ! i)
                                     [0..<test_n_way cfg * n_query cfg]))
                        / real (test_n_way cfg * n_query cfg) * 100),
                model\<lparr>model_n_query := Some (n_query cfg)\<rparr>, g2)
         \<and> length (np_repeat_range (test_n_way cfg) (n_query cfg)) = test_n_way cfg * n_query cfg
         \<and> (\<forall>c q. c < test_n_way cfg \<and> q < n_query cfg \<longrightarrow>
               np_repeat_range (test_n_way cfg) (n_query cfg) ! (c * n_query cfg + q) = c)"
proof (intro conjI allI impI)
  let ?y = "np_repeat_range (test_n_way cfg) (n_query cfg)"
  let ?n = "test_n_way cfg * n_query cfg"
  have ly: "length ?y = ?n" by (rule np_repeat_range_length)
  with len have e: "length pred = length ?y" by simp
  let ?hits = "map (\<lambda>(p, t). p = t) (zip pred ?y)"
  have ne: "np_equal pred ?y = Inr ?hits" using e by (simp add: np_equal_def)
  have lh: "length ?hits = ?n" using e len by simp
  with pos have nonempty: "map of_bool ?hits \<noteq> ([] :: real list)" by auto
  have "np_mean (map of_bool ?hits) = Some (sum_list (map of_bool ?hits) / real ?n)"
    using nonempty lh by (simp add: np_mean_def)
  also have "sum_list (map of_bool ?hits) = real (length (filter id ?hits))"
    by (rule sum_list_of_bool)
  also have "length (filter id ?hits) = length (filter (\<lambda>i. pred ! i = ?y ! i) [0..<length pred])"
    by (rule hits_count [OF e])
  finally have m: "np_mean (map of_bool ?hits)
      = Some (real (length (filter (\<lambda>i. pred ! i = ?y ! i) [0..<?n])) / real ?n)"
    using len by simp
  show "feature_evaluation cfg env pool model g =
           Inr (Some (real (length (filter (\<lambda>i. pred ! i = ?y ! i) [0..<?n])) / real ?n * 100),
                model\<lparr>model_n_query := Some (n_query cfg)\<rparr>, g2)"
  proof (cases "adaptation cfg")
    case True
    with fwd have "set_forward_adaptation env (model\<lparr>model_n_query := Some (n_query cfg)\<rparr>) z g1
        = Inr (scores, g2)" by simp
    with True task pred ne m show ?thesis by (simp add: feature_evaluation_def Let_def)
  next
    case False
    with fwd have "set_forward env (model\<lparr>model_n_query := Some (n_query cfg)\<rparr>) z g1
        = Inr (scores, g2)" by simp
    with False task pred ne m show ?thesis by (simp add: feature_evaluation_def Let_def)
  qed
  show "length ?y = ?n" by (rule ly)
  fix c q assume a: "c < test_n_way cfg \<and> q < n_query cfg"
  then have "c * n_query cfg + q < Suc c * n_query cfg" by simp
  also have "\<dots> \<le> test_n_way cfg * n_query cfg" using a by (intro mult_le_mono1) simp
  finally have b: "c * n_query cfg + q < ?n" .
  have "(c * n_query cfg + q) div n_query cfg = c" using a by simp
  with np_repeat_range_nth [OF b] show "?y ! (c * n_query cfg + q) = c" by simp
qed

lemma example_episode:
  "\<exists>z g1. set_classification_task example_config example_pool constant_draws = Inr (z, g1)"
  by (simp add: set_classification_task_def choice_def permutation_def random_interval_def
      swap_at_def dict_get_def squeeze_def np_array_def homogeneous_def
      example_config_def example_pool_def constant_draws_def)

theorem feature_evaluation_score_witness:
  "\<exists>model' g2. feature_evaluation example_config stub_collaborators example_pool
       (construct stub_collaborators ProtoNet ''Conv4'' ''softmax'' False example_config)
       constant_draws = Inr (Some 50, model', g2)"
proof -
  let ?model = "construct stub_collaborators ProtoNet ''Conv4'' ''softmax'' False example_config"
  let ?model' = "?model\<lparr>model_n_query := Some (n_query example_config)\<rparr>"
  from example_episode obtain z g1 where
    task: "set_classification_task example_config example_pool constant_draws = Inr (z, g1)"
    by blast
  have sc: "stub_scores ?model' = [[1, 0], [1, 0]]"
    by (simp add: stub_scores_def construct_def example_config_def numeral_2_eq_2)
  have fwd: "(if adaptation example_config
               then set_forward_adaptation stub_collaborators ?model' z g1
               else set_forward stub_collaborators ?model' z g1) = Inr ([[1, 0], [1, 0]], g1)"
    using sc by (simp add: stub_collaborators_def example_config_def)
  have pred: "argmax_axis1 [[1, 0], [1, 0]] = Inr [0, 0]" by simp
  have len: "length [0, 0::nat] = test_n_way example_config * n_query example_config"
    and pos: "0 < test_n_way example_config * n_query example_config"
    by (simp_all add: example_config_def)
  note t = conjunct1 [OF feature_evaluation_score [OF task fwd pred len pos]]
  have n: "test_n_way example_config = 2" "n_query example_config = 1"
    by (simp_all add: example_config_def)
  have y: "np_repeat_range 2 1 = [0, 1]"
    by (simp add: np_repeat_range_def numeral_2_eq_2)
  have "real (length (filter (\<lambda>i. [0, 0::nat] ! i = [0, 1] ! i) [0..<2 * 1])) / real (2 * 1) * 100 = 50"
    by (simp add: numeral_2_eq_2)
  with t show ?thesis unfolding n y by auto
qed

section \<open>A run of the stub classifier\<close>

lemma example_features:
  "process_features ([[1, 0], [2, 0], [0, 1], [0, 2]], [3, 3, 4, 4]) = Inr example_pool"
  by (simp add: process_features_def trim_trailing.simps any_nonzero_def np_unique_def
      example_pool_def)

lemma example_load:
  "\<exists>model. load_model example_config stub_collaborators \<lparr>state = 0, epoch = 7\<rparr>
            = (Inr model, False) \<and> model_n_way model = 2"
  by (simp add: load_model_def define_model_def model_dict_get_def construct_def
      example_config_def stub_collaborators_def)

lemma stub_episode:
  assumes "model_n_way model = 2"
  shows "\<exists>g1. feature_evaluation example_config stub_collaborators example_pool model g
           = Inr (Some 50, model\<lparr>model_n_query := Some 1\<rparr>, g1)"
proof -
  from example_pool_sampled [of g] obtain z g1 where
    t: "set_classification_task example_config example_pool g = Inr (z, g1)" by blast
  have sc: "stub_scores (model\<lparr>model_n_query := Some 1\<rparr>) = [[1, 0], [1, 0]]"
    using assms by (simp add: stub_scores_def numeral_2_eq_2)
  have y: "np_repeat_range 2 1 = [0, 1]" by (simp add: np_repeat_range_def numeral_2_eq_2)
  have n: "test_n_way example_config = 2" "n_query example_config = 1"
    "adaptation example_config = False" by (simp_all add: example_config_def)
  have f: "set_forward stub_collaborators (model\<lparr>model_n_query := Some 1\<rparr>) z g1
             = Inr ([[1, 0], [1, 0]], g1)"
    using sc by (simp add: stub_collaborators_def)
  have "feature_evaluation example_config stub_collaborators example_pool model g
          = Inr (Some 50, model\<lparr>model_n_query := Some 1\<rparr>, g1)"
    unfolding feature_evaluation_def t n using f y
    by (simp add: Let_def np_equal_def np_mean_def)
  then show ?thesis by blast
qed

lemma stub_episode_loop:
  "model_n_way model = 2 \<Longrightarrow>
   \<exists>g'. episode_loop example_config stub_collaborators example_pool k model g acc_all
          = Inr (acc_all @ replicate k (Some 50), g')"
proof (induction k arbitrary: model g acc_all)
  case 0
  then show ?case by simp
next
  case (Suc k)
  from stub_episode [OF Suc.prems, of g] obtain g1 where
    f: "feature_evaluation example_config stub_collaborators example_pool model g
          = Inr (Some 50, model\<lparr>model_n_query := Some 1\<rparr>, g1)" by blast
  have "model_n_way (model\<lparr>model_n_query := Some 1\<rparr>) = 2" using Suc.prems by simp
  from Suc.IH [OF this, of g1 "acc_all @ [Some 50]"] obtain g' where
    "episode_loop example_config stub_collaborators example_pool k
        (model\<lparr>model_n_query := Some 1\<rparr>) g1 (acc_all @ [Some 50])
      = Inr ((acc_all @ [Some 50]) @ replicate k (Some 50), g')" by blast
  with f show ?case by (simp add: replicate_app_Cons_same)
qed

theorem confidence_half_width_witness:
  "(\<exists>st'. apply_step example_config stub_collaborators \<lparr>state = 0, epoch = 7\<rparr>
             (Some ([[1, 0], [2, 0], [0, 1], [0, 2]], [3, 3, 4, 4])) example_state
           = (Inr (Some 50), st')
         \<and> map acc_interval_written (results_txt st') = [Some 0])
   \<and> confidence_interval example_config (Some 10) = Some (1.96 * 10 / sqrt 2)
   \<and> (\<exists>h'. confidence_interval (example_config\<lparr>n_iter := 8\<rparr>) (Some 10) = Some h'
            \<and> h' \<le> 1.96 * 10 / sqrt 2)"
proof -
  let ?fl = "([[1, 0], [2, 0], [0, 1], [0, 2]], [3, 3, 4, 4]) :: real list list \<times> int list"
  let ?ms = "\<lparr>state = 0, epoch = 7\<rparr> :: nat model_state"
  have h: "0 < n_iter example_config"
    "n_iter example_config \<le> n_iter (example_config\<lparr>n_iter := 8\<rparr>)" "(0::real) \<le> 10"
    by (simp_all add: example_config_def)
  have n: "n_iter example_config = 2" by (simp add: example_config_def)
  have nm: "method_name example_config \<notin> set [''maml'', ''maml_approx'']"
    by (simp add: example_config_def)
  from example_load obtain model where
    l: "load_model example_config stub_collaborators ?ms = (Inr model, False)"
    and w: "model_n_way model = 2" by blast
  from stub_episode_loop [OF w, of 2 "generator example_state" "[]"] obtain g' where
    el: "episode_loop example_config stub_collaborators example_pool 2 model
           (generator example_state) [] = Inr ([Some 50, Some 50], g')"
    by (auto simp: numeral_2_eq_2)
  have mean: "np_mean_all [Some 50, Some 50] = Some 50"
    by (simp add: np_mean_all_def np_mean_def)
  have std: "np_std_all [Some 50, Some 50] = Some 0"
    by (simp add: np_std_all_def np_std_def np_mean_def)
  have rs: "run_statistics example_config stub_collaborators model (Some ?fl)
              (generator example_state) = Inr ((Some 50, Some 0), g')"
    using nm el by (simp add: run_statistics_def example_features n mean std)
  from apply_step_unfold [OF l, of "Some ?fl" example_state] rs obtain st' where
    a: "apply_step example_config stub_collaborators ?ms (Some ?fl) example_state
          = (Inr (Some 50), st')" by simp
  note t = confidence_half_width [OF h, where env = stub_collaborators and ms = ?ms
      and features_and_labels = "Some ?fl" and st = example_state and m = "Some 50"
      and st' = st']
  from t nm a obtain model2 flag fl pool acc_all g2 where
    l2: "load_model example_config stub_collaborators ?ms = (Inr model2, flag)"
    and fl: "Some ?fl = Some fl" "process_features fl = Inr pool"
    and el2: "episode_loop example_config stub_collaborators pool (n_iter example_config)
                model2 (generator example_state) [] = Inr (acc_all, g2)"
    and wr: "results_txt st' = results_txt example_state @
               [\<lparr> exp_setting = make_exp_setting example_config, retrieved_epoch = epoch ?ms,
                  acc_n_iter = n_iter example_config, acc_mean_written = Some 50,
                  acc_interval_written =
                    confidence_interval example_config (np_std_all acc_all) \<rparr>]"
    by blast
  from l l2 have m2: "model2 = model" by simp
  from fl example_features have p: "pool = example_pool" by simp
  from el el2 have "acc_all = [Some 50, Some 50]" unfolding m2 p n by simp
  with wr std have "map acc_interval_written (results_txt st')
      = [confidence_interval example_config (Some 0)]"
    by (simp add: example_state_def)
  then have i: "map acc_interval_written (results_txt st') = [Some 0]"
    by (simp add: confidence_interval_def n)
  have c1: "confidence_interval example_config (Some 10)
             = Some (1.96 * 10 / sqrt (real (n_iter example_config)))"
    by (rule conjunct1 [OF t])
  have c2: "\<exists>h'. confidence_interval (example_config\<lparr>n_iter := 8\<rparr>) (Some 10) = Some h'
             \<and> h' \<le> 1.96 * 10 / sqrt (real (n_iter example_config))"
    by (rule conjunct1 [OF conjunct2 [OF t]])
  have r: "real (n_iter example_config) = 2" by (simp add: n)
  have e: "\<exists>st'. apply_step example_config stub_collaborators ?ms (Some ?fl) example_state
                  = (Inr (Some 50), st')
                \<and> map acc_interval_written (results_txt st') = [Some 0]"
    using a i by (intro exI conjI)
  note d1 = c1 [unfolded r] and d2 = c2 [unfolded r]
  show ?thesis by (intro conjI) (rule e, rule d1, rule d2)
qed

end
